theory Spec2Isabelle
  imports Main "HOL-Library.Word" "HOL-Library.Signed_Division" "HOL-Library.AList"
begin

unbundle bit_operations_syntax

chapter \<open>The EWasm binary encoder (libyul/backends/wasm/BinaryTransform.cpp)\<close>

text \<open>
  A shallow embedding of \<^verbatim>\<open>BinaryTransform.cpp\<close>: the two LEB128 encoders, the lowering
  of the expression tree to Wasm opcodes, the section emitters and \<^verbatim>\<open>BinaryTransform::run\<close>.
  A \<^verbatim>\<open>bytes\<close> value is a list of 8-bit words, \<^verbatim>\<open>uint64_t\<close> and \<^verbatim>\<open>int64_t\<close> are 64-bit
  words (read with \<open>unat\<close> and \<open>sint\<close>), \<^verbatim>\<open>size_t\<close> values are natural numbers that are
  converted with \<open>of_nat\<close> where the source passes them to a 64-bit or 8-bit parameter.
  Exceptions are values of type \<open>error\<close>; a function that can throw returns \<open>error + 'a\<close>.
\<close>

section \<open>LEB128 codec\<close>

type_synonym byte = "8 word"
type_synonym bytes = "byte list"

text \<open>
  \<^verbatim>\<open>lebEncode\<close> (lines 185-195): the while loop emits \<^verbatim>\<open>0x80 | (_n & 0x7f)\<close> and shifts
  right by 7 as long as \<^verbatim>\<open>_n > 0x7f\<close>; the last byte is \<^verbatim>\<open>_n\<close> itself.
\<close>

function lebEncode :: "64 word \<Rightarrow> bytes" where
  "lebEncode n =
     (if n > 0x7f then ucast (0x80 OR (n AND 0x7f)) # lebEncode (drop_bit 7 n)
      else [ucast n])"
  by pat_completeness auto
termination
proof (relation "measure unat")
  show "wf (measure (unat :: 64 word \<Rightarrow> nat))" by simp
next
  fix n :: "64 word"
  assume "0x7f < n"
  then have "n \<noteq> 0" by auto
  then have "0 < unat n" by (simp add: unat_gt_0)
  then have "unat n div 2 ^ 7 < unat n" by simp
  then show "(drop_bit 7 n, n) \<in> measure unat"
    by (simp add: drop_bit_eq_div unat_div)
qed

declare lebEncode.simps [simp del]

text \<open>
  C++ division of \<^verbatim>\<open>int64_t\<close> truncates towards zero; \<open>sdiv\<close> on \<open>int\<close> is that
  division. The only overflowing quotient, \<^verbatim>\<open>INT64_MIN / -1\<close>, does not occur for the
  divisor \<^verbatim>\<open>0x80\<close>.
\<close>

definition sdiv64 :: "64 word \<Rightarrow> 64 word \<Rightarrow> 64 word" where
  "sdiv64 a b = word_of_int (sint a sdiv sint b)"

text \<open>
  \<^verbatim>\<open>lebEncodeSigned\<close> (lines 197-205). The three branches are those of the source, in its
  order. \<^verbatim>\<open>-_n\<close> is the two's complement negation of the word; for \<^verbatim>\<open>INT64_MIN\<close>, where
  C++ leaves \<^verbatim>\<open>-_n\<close> undefined, it wraps to \<^verbatim>\<open>INT64_MIN\<close>, so the second test fails and
  the third branch is taken.
\<close>

function lebEncodeSigned :: "64 word \<Rightarrow> bytes" where
  "lebEncodeSigned n =
     (if 0 \<le> sint n \<and> sint n < 0x40 then [ucast (n AND 0xff)]
      else if 0 < sint (- n) \<and> sint (- n) < 0x40 then [ucast ((n + 0x80) AND 0xff)]
      else (0x80 OR ucast (n AND 0x7f)) # lebEncodeSigned (sdiv64 n 0x80))"
  by pat_completeness auto
termination
proof (relation "measure (\<lambda>n. nat \<bar>sint n\<bar>)")
  show "wf (measure (\<lambda>n :: 64 word. nat \<bar>sint n\<bar>))" by simp
next
  fix n :: "64 word"
  assume a: "\<not> (0 \<le> sint n \<and> sint n < 0x40)"
  have c: "(k::int) sdiv 128 = (if 0 \<le> k then k div 128 else - ((- k) div 128))" for k
    by (simp add: signed_divide_int_def sgn_if)
  have b: "- (2 ^ 63) \<le> sint n" "sint n < 2 ^ 63"
    using sint_ge [of n] sint_lt [of n] by simp_all
  have "- (2 ^ 63) \<le> sint n sdiv 128 \<and> sint n sdiv 128 < 2 ^ 63"
    using b unfolding c by (simp split: if_splits) linarith
  then have s: "sint (sdiv64 n 0x80) = sint n sdiv 128"
    by (simp add: sdiv64_def sint_sbintrunc' signed_take_bit_int_eq_self)
  from a have "sint n \<noteq> 0" by auto
  then have "\<bar>sint n sdiv 128\<bar> < \<bar>sint n\<bar>"
    unfolding c by (simp split: if_splits) linarith
  then show "(sdiv64 n 0x80, n) \<in> measure (\<lambda>n. nat \<bar>sint n\<bar>)"
    by (simp add: s)
qed

declare lebEncodeSigned.simps [simp del]

text \<open>
  The same recursion with an explicit bound on its depth: \<open>None\<close> when the bound is
  reached before a single-byte case.
\<close>

fun lebEncodeSigned_fuel :: "nat \<Rightarrow> 64 word \<Rightarrow> bytes option" where
  "lebEncodeSigned_fuel 0 n = None"
| "lebEncodeSigned_fuel (Suc k) n =
     (if 0 \<le> sint n \<and> sint n < 0x40 then Some [ucast (n AND 0xff)]
      else if 0 < sint (- n) \<and> sint (- n) < 0x40 then Some [ucast ((n + 0x80) AND 0xff)]
      else map_option ((#) (0x80 OR ucast (n AND 0x7f)))
             (lebEncodeSigned_fuel k (sdiv64 n 0x80)))"

subsection \<open>Reference decoders\<close>

text \<open>
  The standard LEB128 decoders, as the WebAssembly binary format defines them: seven
  payload bits per byte, least significant group first, the high bit of a byte announcing
  another byte. The signed decoder sign-extends from bit 6 of the last byte. Both read a
  prefix of the input and return the value with the unread rest, or \<open>None\<close> when the
  input ends inside a number.
\<close>

fun lebDecode :: "bytes \<Rightarrow> (nat \<times> bytes) option" where
  "lebDecode [] = None"
| "lebDecode (b # bs) =
     (if b AND 0x80 = 0 then Some (unat b, bs)
      else (case lebDecode bs of
              None \<Rightarrow> None
            | Some (v, rest) \<Rightarrow> Some (unat (b AND 0x7f) + 128 * v, rest)))"

fun lebDecodeSigned :: "bytes \<Rightarrow> (int \<times> bytes) option" where
  "lebDecodeSigned [] = None"
| "lebDecodeSigned (b # bs) =
     (if b AND 0x80 = 0
      then Some (if b AND 0x40 = 0 then uint b else uint b - 128, bs)
      else (case lebDecodeSigned bs of
              None \<Rightarrow> None
            | Some (v, rest) \<Rightarrow> Some (uint (b AND 0x7f) + 128 * v, rest)))"

section \<open>Errors and maps\<close>

text \<open>
  The three ways the encoder fails: \<^verbatim>\<open>yulAssert\<close> with its message, \<^verbatim>\<open>std::out_of_range\<close>
  from \<^verbatim>\<open>map::at\<close> and \<^verbatim>\<open>vector::at\<close>, and \<^verbatim>\<open>boost::bad_get\<close> from \<^verbatim>\<open>boost::get\<close>.
  Where C++ leaves the order of two throwing operands of \<^verbatim>\<open>+\<close> open, the model
  evaluates them left to right.
\<close>

datatype error =
    AssertionFailed string
  | OutOfRange
  | BadGet

definition bindE :: "error + 'a \<Rightarrow> ('a \<Rightarrow> error + 'b) \<Rightarrow> error + 'b" where
  "bindE r f = (case r of Inl e \<Rightarrow> Inl e | Inr v \<Rightarrow> f v)"

text \<open>
  A \<^verbatim>\<open>std::map<string, T>\<close> that is only assigned to, looked up and counted is an
  association list with distinct keys: \<open>map_assign\<close> is \<^verbatim>\<open>m[k] = v\<close>, \<open>map_at\<close> is
  \<^verbatim>\<open>m.at(k)\<close>, \<open>map_index\<close> is reading \<^verbatim>\<open>m[k]\<close> (which inserts 0 for a missing key) and
  \<^verbatim>\<open>m.size()\<close> is the length of the list.
\<close>

type_synonym 'v strmap = "(string \<times> 'v) list"

definition map_assign :: "'v strmap \<Rightarrow> string \<Rightarrow> 'v \<Rightarrow> 'v strmap" where
  "map_assign m k v = AList.update k v m"

definition map_at :: "'v strmap \<Rightarrow> string \<Rightarrow> error + 'v" where
  "map_at m k = (case map_of m k of None \<Rightarrow> Inl OutOfRange | Some v \<Rightarrow> Inr v)"

definition map_index :: "nat strmap \<Rightarrow> string \<Rightarrow> nat \<times> nat strmap" where
  "map_index m k = (case map_of m k of None \<Rightarrow> (0, map_assign m k 0) | Some v \<Rightarrow> (v, m))"

section \<open>The module representation\<close>

text \<open>
  Modelled from the spec: the declarations of \<^verbatim>\<open>Expression\<close>, \<^verbatim>\<open>FunctionImport\<close>,
  \<^verbatim>\<open>FunctionDefinition\<close>, the variable declarations and \<^verbatim>\<open>Module\<close> (the header
  \<^verbatim>\<open>EWasmAST.h\<close>) and the member declarations of \<^verbatim>\<open>BinaryTransform\<close> (the header
  \<^verbatim>\<open>BinaryTransform.h\<close>). The fields are those the encoder reads; \<^verbatim>\<open>If\<close> is spelled
  \<open>If_expr\<close>, and the \<^verbatim>\<open>imports\<close> and \<^verbatim>\<open>functions\<close> of a module \<open>imports_m\<close> and
  \<open>functions_m\<close>. \<^verbatim>\<open>Module::subModules\<close>, a \<^verbatim>\<open>std::map\<close>, is the list of its entries in
  iteration order.
\<close>

datatype Expression =
    Literal "64 word"
  | StringLiteral string
  | LocalVariable string
  | GlobalVariable string
  | BuiltinCall string "Expression list"
  | FunctionCall string "Expression list"
  | LocalAssignment string Expression
  | GlobalAssignment string Expression
  | If_expr Expression "Expression list" "Expression list option"
  | Loop string "Expression list"
  | Block "Expression list"
  | Break string
  | BreakIf string

datatype VariableDeclaration = VariableDeclaration (variableName: string)

datatype GlobalVariableDeclaration = GlobalVariableDeclaration (variableName: string)

record FunctionImport =
  module :: string
  externalName :: string
  internalName :: string
  paramTypes :: "string list"
  returnType :: "string option"

record FunctionDefinition =
  name :: string
  parameterNames :: "string list"
  returns :: bool
  locals :: "VariableDeclaration list"
  body :: "Expression list"

datatype Module =
  Module (globals: "GlobalVariableDeclaration list")
         (imports_m: "FunctionImport list")
         (functions_m: "FunctionDefinition list")
         (subModules: "(string \<times> Module) list")

record BinaryTransform =
  m_locals :: "nat strmap"
  m_globals :: "nat strmap"
  m_functions :: "nat strmap"
  m_functionTypes :: "nat strmap"
  m_labels :: "string list"
  m_subModulePosAndSize :: "(nat \<times> nat) strmap"

section \<open>Constants\<close>

text \<open>The enumerators of \<^verbatim>\<open>Section\<close>, \<^verbatim>\<open>ValueType\<close>, \<^verbatim>\<open>Export\<close> and \<^verbatim>\<open>Opcode\<close> that the encoder uses (lines 36-93).\<close>

abbreviation (input) Section_CUSTOM :: byte where "Section_CUSTOM \<equiv> 0x00"
abbreviation (input) Section_TYPE :: byte where "Section_TYPE \<equiv> 0x01"
abbreviation (input) Section_IMPORT :: byte where "Section_IMPORT \<equiv> 0x02"
abbreviation (input) Section_FUNCTION :: byte where "Section_FUNCTION \<equiv> 0x03"
abbreviation (input) Section_MEMORY :: byte where "Section_MEMORY \<equiv> 0x05"
abbreviation (input) Section_GLOBAL :: byte where "Section_GLOBAL \<equiv> 0x06"
abbreviation (input) Section_EXPORT :: byte where "Section_EXPORT \<equiv> 0x07"
abbreviation (input) Section_CODE :: byte where "Section_CODE \<equiv> 0x0a"

abbreviation (input) ValueType_Void :: byte where "ValueType_Void \<equiv> 0x40"
abbreviation (input) ValueType_Function :: byte where "ValueType_Function \<equiv> 0x60"
abbreviation (input) ValueType_I64 :: byte where "ValueType_I64 \<equiv> 0x7e"
abbreviation (input) ValueType_I32 :: byte where "ValueType_I32 \<equiv> 0x7f"

abbreviation (input) Export_Function :: byte where "Export_Function \<equiv> 0x0"
abbreviation (input) Export_Memory :: byte where "Export_Memory \<equiv> 0x2"

abbreviation (input) Opcode_Unreachable :: byte where "Opcode_Unreachable \<equiv> 0x00"
abbreviation (input) Opcode_Block :: byte where "Opcode_Block \<equiv> 0x02"
abbreviation (input) Opcode_Loop :: byte where "Opcode_Loop \<equiv> 0x03"
abbreviation (input) Opcode_If :: byte where "Opcode_If \<equiv> 0x04"
abbreviation (input) Opcode_Else :: byte where "Opcode_Else \<equiv> 0x05"
abbreviation (input) Opcode_End :: byte where "Opcode_End \<equiv> 0x0b"
abbreviation (input) Opcode_Call :: byte where "Opcode_Call \<equiv> 0x10"
abbreviation (input) Opcode_LocalGet :: byte where "Opcode_LocalGet \<equiv> 0x20"
abbreviation (input) Opcode_LocalSet :: byte where "Opcode_LocalSet \<equiv> 0x21"
abbreviation (input) Opcode_GlobalGet :: byte where "Opcode_GlobalGet \<equiv> 0x23"
abbreviation (input) Opcode_GlobalSet :: byte where "Opcode_GlobalSet \<equiv> 0x24"
abbreviation (input) Opcode_I64Const :: byte where "Opcode_I64Const \<equiv> 0x42"

text \<open>The builtin opcode table (lines 95-178).\<close>

definition builtins :: "byte strmap" where
  "builtins = [
    (''i32.load'', 0x28), (''i64.load'', 0x29), (''i32.load8_s'', 0x2c), (''i32.load8_u'', 0x2d),
    (''i32.load16_s'', 0x2e), (''i32.load16_u'', 0x2f), (''i64.load8_s'', 0x30),
    (''i64.load8_u'', 0x31), (''i64.load16_s'', 0x32), (''i64.load16_u'', 0x33),
    (''i64.load32_s'', 0x34), (''i64.load32_u'', 0x35), (''i32.store'', 0x36),
    (''i64.store'', 0x37), (''i32.store8'', 0x3a), (''i32.store16'', 0x3b),
    (''i64.store8'', 0x3c), (''i64.store16'', 0x3d), (''i64.store32'', 0x3e),
    (''memory.size'', 0x3f), (''memory.grow'', 0x40), (''i32.eqz'', 0x45), (''i32.eq'', 0x46),
    (''i32.ne'', 0x47), (''i32.lt_s'', 0x48), (''i32.lt_u'', 0x49), (''i32.gt_s'', 0x4a),
    (''i32.gt_u'', 0x4b), (''i32.le_s'', 0x4c), (''i32.le_u'', 0x4d), (''i32.ge_s'', 0x4e),
    (''i32.ge_u'', 0x4f), (''i64.eqz'', 0x50), (''i64.eq'', 0x51), (''i64.ne'', 0x52),
    (''i64.lt_s'', 0x53), (''i64.lt_u'', 0x54), (''i64.gt_s'', 0x55), (''i64.gt_u'', 0x56),
    (''i64.le_s'', 0x57), (''i64.le_u'', 0x58), (''i64.ge_s'', 0x59), (''i64.ge_u'', 0x5a),
    (''i32.clz'', 0x67), (''i32.ctz'', 0x68), (''i32.popcnt'', 0x69), (''i32.add'', 0x6a),
    (''i32.sub'', 0x6b), (''i32.mul'', 0x6c), (''i32.div_s'', 0x6d), (''i32.div_u'', 0x6e),
    (''i32.rem_s'', 0x6f), (''i32.rem_u'', 0x70), (''i32.and'', 0x71), (''i32.or'', 0x72),
    (''i32.xor'', 0x73), (''i32.shl'', 0x74), (''i32.shr_s'', 0x75), (''i32.shr_u'', 0x76),
    (''i32.rotl'', 0x77), (''i32.rotr'', 0x78), (''i64.clz'', 0x79), (''i64.ctz'', 0x7a),
    (''i64.popcnt'', 0x7b), (''i64.add'', 0x7c), (''i64.sub'', 0x7d), (''i64.mul'', 0x7e),
    (''i64.div_s'', 0x7f), (''i64.div_u'', 0x80), (''i64.rem_s'', 0x81), (''i64.rem_u'', 0x82),
    (''i64.and'', 0x83), (''i64.or'', 0x84), (''i64.xor'', 0x85), (''i64.shl'', 0x86),
    (''i64.shr_s'', 0x87), (''i64.shr_u'', 0x88), (''i64.rotl'', 0x89), (''i64.rotr'', 0x8a),
    (''i32.wrap_i64'', 0xa7), (''i64.extend_i32_s'', 0xac), (''i64.extend_i32_u'', 0xad)]"

definition opcode :: "byte \<Rightarrow> bytes" where
  "opcode opc = [opc]"

definition asBytes :: "string \<Rightarrow> bytes" where
  "asBytes s = map of_char s"

definition prefixSize :: "bytes \<Rightarrow> bytes" where
  "prefixSize data = lebEncode (of_nat (length data)) @ data"

definition encode :: "string \<Rightarrow> bytes" where
  "encode nm = lebEncode (of_nat (length nm)) @ asBytes nm"

text \<open>\<^verbatim>\<open>s.find(pat) != string::npos\<close>: \<open>pat\<close> occurs in \<open>s\<close>.\<close>

fun str_find :: "string \<Rightarrow> string \<Rightarrow> bool" where
  "str_find [] pat = (pat = [])"
| "str_find (c # cs) pat = (take (length pat) (c # cs) = pat \<or> str_find cs pat)"

text \<open>\<^verbatim>\<open>vector::at\<close> and \<^verbatim>\<open>boost::get<StringLiteral>\<close>.\<close>

definition vector_at :: "'a list \<Rightarrow> nat \<Rightarrow> error + 'a" where
  "vector_at xs i = (if i < length xs then Inr (xs ! i) else Inl OutOfRange)"

definition get_StringLiteral :: "Expression \<Rightarrow> error + string" where
  "get_StringLiteral e = (case e of StringLiteral s \<Rightarrow> Inr s | _ \<Rightarrow> Inl BadGet)"

section \<open>Expression lowering\<close>

text \<open>
  \<open>apply_visitor bt e\<close> is \<^verbatim>\<open>boost::apply_visitor(*this, e)\<close>, one equation for each
  \<^verbatim>\<open>operator()\<close> (lines 242-371); \<open>visit\<close> is \<^verbatim>\<open>BinaryTransform::visit\<close> (lines 528-534).
  The label stack is pushed for the statements of an \<^verbatim>\<open>If\<close> and a \<^verbatim>\<open>Loop\<close> and popped
  after them, so they are lowered with the extended stack.
\<close>

fun apply_visitor :: "BinaryTransform \<Rightarrow> Expression \<Rightarrow> error + bytes"
  and visit :: "BinaryTransform \<Rightarrow> Expression list \<Rightarrow> error + bytes"
where
  "apply_visitor bt (Literal v) = Inr (opcode Opcode_I64Const @ lebEncodeSigned v)"
| "apply_visitor bt (StringLiteral s) =
     Inl (AssertionFailed ''String literals not yet implemented'')"
| "apply_visitor bt (LocalVariable nm) =
     bindE (map_at (m_locals bt) nm) (\<lambda>i.
       Inr (opcode Opcode_LocalGet @ lebEncode (of_nat i)))"
| "apply_visitor bt (GlobalVariable nm) =
     bindE (map_at (m_globals bt) nm) (\<lambda>i.
       Inr (opcode Opcode_GlobalGet @ lebEncode (of_nat i)))"
| "apply_visitor bt (BuiltinCall functionName arguments) =
     (if functionName = ''dataoffset'' then
        bindE (vector_at arguments 0) (\<lambda>a.
        bindE (get_StringLiteral a) (\<lambda>nm.
        bindE (map_at (m_subModulePosAndSize bt) nm) (\<lambda>ps.
          Inr (opcode Opcode_I64Const @ lebEncodeSigned (of_nat (fst ps))))))
      else if functionName = ''datasize'' then
        bindE (vector_at arguments 0) (\<lambda>a.
        bindE (get_StringLiteral a) (\<lambda>nm.
        bindE (map_at (m_subModulePosAndSize bt) nm) (\<lambda>ps.
          Inr (opcode Opcode_I64Const @ lebEncodeSigned (of_nat (snd ps))))))
      else
        bindE (visit bt arguments) (\<lambda>args.
          if functionName = ''unreachable'' then Inr (opcode Opcode_Unreachable)
          else (case map_of builtins functionName of
                  None \<Rightarrow> Inl (AssertionFailed (''Builtin '' @ functionName @ '' not found''))
                | Some b \<Rightarrow>
                    Inr (args @ [b] @
                         (if str_find functionName ''.load'' \<or> str_find functionName ''.store''
                          then [3, 0] else [])))))"
| "apply_visitor bt (FunctionCall functionName arguments) =
     bindE (visit bt arguments) (\<lambda>result.
     bindE (map_at (m_functions bt) functionName) (\<lambda>i.
       Inr (result @ [Opcode_Call] @ [of_nat i])))"
| "apply_visitor bt (LocalAssignment nm v) =
     bindE (apply_visitor bt v) (\<lambda>val.
     bindE (map_at (m_locals bt) nm) (\<lambda>i.
       Inr (val @ opcode Opcode_LocalSet @ lebEncode (of_nat i))))"
| "apply_visitor bt (GlobalAssignment nm v) =
     bindE (apply_visitor bt v) (\<lambda>val.
     bindE (map_at (m_globals bt) nm) (\<lambda>i.
       Inr (val @ opcode Opcode_GlobalSet @ lebEncode (of_nat i))))"
| "apply_visitor bt (If_expr condition statements elseStatements) =
     bindE (apply_visitor bt condition) (\<lambda>c.
     bindE (visit (bt\<lparr>m_labels := [] # m_labels bt\<rparr>) statements) (\<lambda>s.
     bindE (case elseStatements of
              None \<Rightarrow> Inr []
            | Some es \<Rightarrow>
                bindE (visit (bt\<lparr>m_labels := [] # m_labels bt\<rparr>) es) (\<lambda>e.
                  Inr (opcode Opcode_Else @ e))) (\<lambda>e.
       Inr (c @ opcode Opcode_If @ [ValueType_Void] @ s @ e @ opcode Opcode_End))))"
| "apply_visitor bt (Loop labelName statements) =
     bindE (visit (bt\<lparr>m_labels := labelName # m_labels bt\<rparr>) statements) (\<lambda>s.
       Inr (opcode Opcode_Loop @ [ValueType_Void] @ s @ opcode Opcode_End))"
| "apply_visitor bt (Break l) = Inl (AssertionFailed ''br not yet implemented.'')"
| "apply_visitor bt (BreakIf l) = Inl (AssertionFailed ''br_if not yet implemented.'')"
| "apply_visitor bt (Block statements) =
     bindE (visit bt statements) (\<lambda>s.
       Inr (opcode Opcode_Block @ [ValueType_Void] @ s @ opcode Opcode_End))"
| "visit bt [] = Inr []"
| "visit bt (expr # exprs) =
     bindE (apply_visitor bt expr) (\<lambda>b.
     bindE (visit bt exprs) (\<lambda>bs. Inr (b @ bs)))"

text \<open>
  \<^verbatim>\<open>operator()(FunctionDefinition const&)\<close> (lines 373-394). \<open>assignIndices\<close> is the loop
  \<^verbatim>\<open>m[name] = idx++\<close> over a list of names; it returns the map and the next index.
  \<open>rebuildLocals\<close> is \<^verbatim>\<open>m_locals\<close> after \<^verbatim>\<open>clear()\<close> and the two loops over the parameters
  and the locals.
\<close>

fun assignIndices :: "nat strmap \<Rightarrow> string list \<Rightarrow> nat \<Rightarrow> nat strmap \<times> nat" where
  "assignIndices m [] idx = (m, idx)"
| "assignIndices m (nm # nms) idx = assignIndices (map_assign m nm idx) nms (Suc idx)"

definition rebuildLocals :: "FunctionDefinition \<Rightarrow> nat strmap" where
  "rebuildLocals f =
     (case assignIndices [] (parameterNames f) 0 of (ls, varIdx) \<Rightarrow>
        fst (assignIndices ls (map VariableDeclaration.variableName (locals f)) varIdx))"

definition functionDefinition ::
  "BinaryTransform \<Rightarrow> FunctionDefinition \<Rightarrow> error + (bytes \<times> BinaryTransform)" where
  "functionDefinition bt f =
     (let ret = lebEncode 1 @ lebEncode (of_nat (length (locals f))) @ [ValueType_I64];
          bt' = bt\<lparr>m_locals := rebuildLocals f\<rparr>
      in bindE (visit bt' (body f)) (\<lambda>b.
           Inr (prefixSize (ret @ b @ [Opcode_End]), bt')))"

section \<open>Sections\<close>

text \<open>
  \<^verbatim>\<open>encodeType\<close>, \<^verbatim>\<open>encodeTypes\<close> and the two overloads of \<^verbatim>\<open>typeOf\<close> (lines 396-430).
\<close>

type_synonym Type = "bytes \<times> bytes"

definition encodeType :: "string \<Rightarrow> error + byte" where
  "encodeType typeName =
     (if typeName = ''i32'' then Inr ValueType_I32
      else if typeName = ''i64'' then Inr ValueType_I64
      else Inl (AssertionFailed []))"

fun encodeTypes :: "string list \<Rightarrow> error + bytes" where
  "encodeTypes [] = Inr []"
| "encodeTypes (t # ts) =
     bindE (encodeType t) (\<lambda>b. bindE (encodeTypes ts) (\<lambda>bs. Inr (b # bs)))"

definition typeOf_import :: "FunctionImport \<Rightarrow> error + Type" where
  "typeOf_import imp =
     bindE (encodeTypes (paramTypes imp)) (\<lambda>p.
     bindE (encodeTypes (case returnType imp of Some t \<Rightarrow> [t] | None \<Rightarrow> [])) (\<lambda>r.
       Inr (p, r)))"

definition typeOf_def :: "FunctionDefinition \<Rightarrow> error + Type" where
  "typeOf_def funDef =
     bindE (encodeTypes (replicate (length (parameterNames funDef)) ''i64'')) (\<lambda>p.
     bindE (encodeTypes (replicate (if returns funDef then 1 else 0) ''i64'')) (\<lambda>r.
       Inr (p, r)))"

text \<open>
  \<^verbatim>\<open>typeSection\<close> (lines 432-457) collects the signatures in a
  \<^verbatim>\<open>std::map<Type, vector<string>>\<close>, which iterates in the order of \<^verbatim>\<open>operator<\<close> on
  pairs of byte vectors: \<open>bytes_less\<close> is \<^verbatim>\<open>std::lexicographical_compare\<close>, \<open>Type_less\<close>
  the comparison of \<^verbatim>\<open>std::pair\<close>. The map is the list of its entries in that order, and
  \<open>types_emplace\<close> is \<^verbatim>\<open>types[k].emplace_back(name)\<close>.
\<close>

fun bytes_less :: "bytes \<Rightarrow> bytes \<Rightarrow> bool" where
  "bytes_less [] [] = False"
| "bytes_less [] (y # ys) = True"
| "bytes_less (x # xs) [] = False"
| "bytes_less (x # xs) (y # ys) = (x < y \<or> (\<not> y < x \<and> bytes_less xs ys))"

definition Type_less :: "Type \<Rightarrow> Type \<Rightarrow> bool" where
  "Type_less p q =
     (bytes_less (fst p) (fst q) \<or> (\<not> bytes_less (fst q) (fst p) \<and> bytes_less (snd p) (snd q)))"

type_synonym TypeMap = "(Type \<times> string list) list"

fun types_emplace :: "TypeMap \<Rightarrow> Type \<Rightarrow> string \<Rightarrow> TypeMap" where
  "types_emplace [] k nm = [(k, [nm])]"
| "types_emplace ((k', nms) # m) k nm =
     (if Type_less k k' then (k, [nm]) # (k', nms) # m
      else if Type_less k' k then (k', nms) # types_emplace m k nm
      else (k', nms @ [nm]) # m)"

fun collectImports :: "TypeMap \<Rightarrow> FunctionImport list \<Rightarrow> error + TypeMap" where
  "collectImports types [] = Inr types"
| "collectImports types (imp # imps) =
     bindE (typeOf_import imp) (\<lambda>t.
       collectImports (types_emplace types t (internalName imp)) imps)"

fun collectFunctions :: "TypeMap \<Rightarrow> FunctionDefinition list \<Rightarrow> error + TypeMap" where
  "collectFunctions types [] = Inr types"
| "collectFunctions types (f # fs) =
     bindE (typeOf_def f) (\<lambda>t.
       collectFunctions (types_emplace types t (name f)) fs)"

fun assignNames :: "nat strmap \<Rightarrow> string list \<Rightarrow> nat \<Rightarrow> nat strmap" where
  "assignNames m [] index = m"
| "assignNames m (nm # nms) index = assignNames (map_assign m nm index) nms index"

fun emitTypes :: "nat strmap \<Rightarrow> TypeMap \<Rightarrow> nat \<Rightarrow> bytes \<Rightarrow> nat strmap \<times> bytes \<times> nat" where
  "emitTypes ft [] index result = (ft, result, index)"
| "emitTypes ft ((type, funNames) # types) index result =
     emitTypes (assignNames ft funNames index) types (Suc index)
       (result @ [ValueType_Function]
          @ lebEncode (of_nat (length (fst type))) @ fst type
          @ lebEncode (of_nat (length (snd type))) @ snd type)"

definition typeSection ::
  "BinaryTransform \<Rightarrow> FunctionImport list \<Rightarrow> FunctionDefinition list
     \<Rightarrow> error + (bytes \<times> BinaryTransform)" where
  "typeSection bt imps funs =
     bindE (collectImports [] imps) (\<lambda>types0.
     bindE (collectFunctions types0 funs) (\<lambda>types.
       (case emitTypes (m_functionTypes bt) types 0 [] of (ft, result, index) \<Rightarrow>
          Inr ([Section_TYPE] @ prefixSize (lebEncode (of_nat index) @ result),
               bt\<lparr>m_functionTypes := ft\<rparr>))))"

text \<open>
  The other section emitters (lines 459-526). \<^verbatim>\<open>importSection\<close> reads
  \<^verbatim>\<open>m_functionTypes\<close> with \<^verbatim>\<open>operator[]\<close>, \<^verbatim>\<open>functionSection\<close> with \<^verbatim>\<open>at\<close>.
\<close>

fun importEntries :: "nat strmap \<Rightarrow> FunctionImport list \<Rightarrow> bytes \<Rightarrow> bytes \<times> nat strmap" where
  "importEntries ft [] result = (result, ft)"
| "importEntries ft (imp # imps) result =
     (case map_index ft (internalName imp) of (idx, ft') \<Rightarrow>
        importEntries ft' imps
          (result @ encode (module imp) @ encode (externalName imp) @ [0]
             @ lebEncode (of_nat idx)))"

definition importSection ::
  "BinaryTransform \<Rightarrow> FunctionImport list \<Rightarrow> bytes \<times> BinaryTransform" where
  "importSection bt imps =
     (case importEntries (m_functionTypes bt) imps (lebEncode (of_nat (length imps))) of
        (result, ft) \<Rightarrow>
          ([Section_IMPORT] @ prefixSize result, bt\<lparr>m_functionTypes := ft\<rparr>))"

fun functionEntries :: "nat strmap \<Rightarrow> FunctionDefinition list \<Rightarrow> bytes \<Rightarrow> error + bytes" where
  "functionEntries ft [] result = Inr result"
| "functionEntries ft (f # fs) result =
     bindE (map_at ft (name f)) (\<lambda>idx.
       functionEntries ft fs (result @ lebEncode (of_nat idx)))"

definition functionSection :: "BinaryTransform \<Rightarrow> FunctionDefinition list \<Rightarrow> error + bytes" where
  "functionSection bt funs =
     bindE (functionEntries (m_functionTypes bt) funs (lebEncode (of_nat (length funs))))
       (\<lambda>result. Inr ([Section_FUNCTION] @ prefixSize result))"

definition memorySection :: bytes where
  "memorySection = [Section_MEMORY] @ prefixSize (lebEncode 1 @ [0] @ [1])"

definition globalSection :: "BinaryTransform \<Rightarrow> bytes" where
  "globalSection bt =
     [Section_GLOBAL] @ prefixSize
       (lebEncode (of_nat (length (m_globals bt)))
        @ concat (replicate (length (m_globals bt))
            ([ValueType_I64, 1] @ opcode Opcode_I64Const @ lebEncodeSigned 0
               @ opcode Opcode_End)))"

definition exportSection :: "BinaryTransform \<Rightarrow> error + bytes" where
  "exportSection bt =
     bindE (map_at (m_functions bt) ''main'') (\<lambda>idx.
       Inr ([Section_EXPORT] @ prefixSize
              (lebEncode 2
               @ encode ''memory'' @ [Export_Memory] @ lebEncode 0
               @ encode ''main'' @ [Export_Function] @ lebEncode (of_nat idx))))"

definition customSection :: "string \<Rightarrow> bytes \<Rightarrow> bytes" where
  "customSection nm data = [Section_CUSTOM] @ prefixSize (encode nm @ data)"

fun codeEntries ::
  "BinaryTransform \<Rightarrow> FunctionDefinition list \<Rightarrow> bytes \<Rightarrow> error + (bytes \<times> BinaryTransform)" where
  "codeEntries bt [] result = Inr (result, bt)"
| "codeEntries bt (f # fs) result =
     bindE (functionDefinition bt f) (\<lambda>(b, bt').
       codeEntries bt' fs (result @ b))"

definition codeSection ::
  "BinaryTransform \<Rightarrow> FunctionDefinition list \<Rightarrow> error + (bytes \<times> BinaryTransform)" where
  "codeSection bt funs =
     bindE (codeEntries bt funs (lebEncode (of_nat (length funs)))) (\<lambda>(result, bt').
       Inr ([Section_CODE] @ prefixSize result, bt'))"

section \<open>The encoder\<close>

text \<open>
  \<^verbatim>\<open>BinaryTransform::run\<close> (lines 209-240). \<open>resolver\<close> is the three loops that fill
  \<^verbatim>\<open>m_globals\<close> and \<^verbatim>\<open>m_functions\<close>; \<open>sections\<close> builds \<^verbatim>\<open>ret\<close> up to the custom
  sections and returns it with the encoder state; \<open>embedSubModules\<close> is the loop over
  \<^verbatim>\<open>_module.subModules\<close>, given the result of the recursive \<^verbatim>\<open>run\<close> for each entry. The
  loop stops at the first sub-module whose encoding fails.
\<close>

definition resolver ::
  "GlobalVariableDeclaration list \<Rightarrow> FunctionImport list \<Rightarrow> FunctionDefinition list
     \<Rightarrow> BinaryTransform" where
  "resolver gs imps funs =
     (let (gm, i) = assignIndices [] (map GlobalVariableDeclaration.variableName gs) 0;
          (fm, funID) = assignIndices [] (map internalName imps) 0;
          (fm', funID') = assignIndices fm (map name funs) funID
      in \<lparr>m_locals = [], m_globals = gm, m_functions = fm', m_functionTypes = [],
          m_labels = [], m_subModulePosAndSize = []\<rparr>)"

fun embedSubModules ::
  "BinaryTransform \<Rightarrow> bytes \<Rightarrow> (string \<times> (error + bytes)) list
     \<Rightarrow> error + (bytes \<times> BinaryTransform)" where
  "embedSubModules bt ret [] = Inr (ret, bt)"
| "embedSubModules bt ret ((nm, r) # subs) =
     bindE r (\<lambda>data.
       let len = length data;
           ret' = ret @ customSection nm data
       in embedSubModules
            (bt\<lparr>m_subModulePosAndSize :=
                  map_assign (m_subModulePosAndSize bt) nm (length ret' - len, len)\<rparr>)
            ret' subs)"

definition sections ::
  "GlobalVariableDeclaration list \<Rightarrow> FunctionImport list \<Rightarrow> FunctionDefinition list
     \<Rightarrow> (string \<times> (error + bytes)) list \<Rightarrow> error + (bytes \<times> BinaryTransform)" where
  "sections gs imps funs subs =
     bindE (typeSection (resolver gs imps funs) imps funs) (\<lambda>(ts, bt1).
       case importSection bt1 imps of (isec, bt2) \<Rightarrow>
         bindE (functionSection bt2 funs) (\<lambda>fs.
         bindE (exportSection bt2) (\<lambda>es.
           embedSubModules bt2
             ([0, 0x61, 0x73, 0x6d] @ [1, 0, 0, 0] @ ts @ isec @ fs @ memorySection
                @ globalSection bt2 @ es)
             subs)))"

fun run :: "Module \<Rightarrow> error + bytes" where
  "run (Module gs imps funs subs) =
     bindE (sections gs imps funs (map (\<lambda>(nm, sub). (nm, run sub)) subs)) (\<lambda>(ret, bt).
     bindE (codeSection bt funs) (\<lambda>(cs, bt'). Inr (ret @ cs)))"

section \<open>Notions used in the statements\<close>

text \<open>
  A section as the WebAssembly binary format frames it: the section id, the unsigned
  LEB128 of the length of the payload, the payload.
\<close>

definition section_frame :: "byte \<Rightarrow> bytes \<Rightarrow> bytes" where
  "section_frame sid payload = sid # lebEncode (of_nat (length payload)) @ payload"

text \<open>
  An entry of the Type section for a signature, and the position of a signature in the
  list of the signatures of the Type section.
\<close>

definition type_entry :: "Type \<Rightarrow> bytes" where
  "type_entry t =
     [0x60] @ lebEncode (of_nat (length (fst t))) @ fst t
       @ lebEncode (of_nat (length (snd t))) @ snd t"

definition sig_index :: "Type list \<Rightarrow> Type \<Rightarrow> nat" where
  "sig_index keys t = length (takeWhile (\<lambda>k. k \<noteq> t) keys)"

text \<open>
  The function names recorded in a signature map, in iteration order, and the set of the
  pairs (signature, function name) that it holds.
\<close>

definition names_of :: "TypeMap \<Rightarrow> string list" where
  "names_of m = concat (map snd m)"

definition pairs_of :: "TypeMap \<Rightarrow> (Type \<times> string) set" where
  "pairs_of m = {(k, nm). \<exists>nms. (k, nms) \<in> set m \<and> nm \<in> set nms}"

text \<open>
  A builtin name that is neither one of the three special names nor in the opcode table.
\<close>

definition unknown_builtin :: "string \<Rightarrow> bool" where
  "unknown_builtin fn =
     (fn \<noteq> ''dataoffset'' \<and> fn \<noteq> ''datasize'' \<and> fn \<noteq> ''unreachable''
      \<and> map_of builtins fn = None)"

text \<open>
  \<open>unsupported e\<close>: the expression \<open>e\<close> is, or contains at a place that the encoder lowers,
  a \<^verbatim>\<open>StringLiteral\<close>, a \<^verbatim>\<open>Break\<close>, a \<^verbatim>\<open>BreakIf\<close> or a call of an unknown builtin. The
  arguments of \<^verbatim>\<open>dataoffset\<close> and \<^verbatim>\<open>datasize\<close> are not lowered, so a string literal there
  does not count.
\<close>

fun unsupported :: "Expression \<Rightarrow> bool"
  and unsupported_list :: "Expression list \<Rightarrow> bool"
where
  "unsupported (Literal v) = False"
| "unsupported (StringLiteral s) = True"
| "unsupported (LocalVariable nm) = False"
| "unsupported (GlobalVariable nm) = False"
| "unsupported (BuiltinCall fn args) =
     (fn \<noteq> ''dataoffset'' \<and> fn \<noteq> ''datasize''
      \<and> (unsupported_list args \<or> unknown_builtin fn))"
| "unsupported (FunctionCall fn args) = unsupported_list args"
| "unsupported (LocalAssignment nm v) = unsupported v"
| "unsupported (GlobalAssignment nm v) = unsupported v"
| "unsupported (If_expr c s e) =
     (unsupported c \<or> unsupported_list s
      \<or> (case e of None \<Rightarrow> False | Some es \<Rightarrow> unsupported_list es))"
| "unsupported (Loop l s) = unsupported_list s"
| "unsupported (Block s) = unsupported_list s"
| "unsupported (Break l) = True"
| "unsupported (BreakIf l) = True"
| "unsupported_list [] = False"
| "unsupported_list (e # es) = (unsupported e \<or> unsupported_list es)"

text \<open>
  The entry of a function in the Code section, given the bytes \<open>b\<close> of its lowered body:
  one group of locals, the number of declared locals, the type \<^verbatim>\<open>i64\<close>, the body, \<^verbatim>\<open>end\<close>,
  and before all that the unsigned LEB128 of its length.
\<close>

definition function_entry :: "FunctionDefinition \<Rightarrow> bytes \<Rightarrow> bytes" where
  "function_entry f b =
     (let payload = [0x01] @ lebEncode (of_nat (length (locals f))) @ [0x7E] @ b @ [0x0B]
      in lebEncode (of_nat (length payload)) @ payload)"

definition local_names :: "FunctionDefinition \<Rightarrow> string list" where
  "local_names f = parameterNames f @ map VariableDeclaration.variableName (locals f)"

section \<open>Example modules\<close>

text \<open>
  A module with a single empty function \<open>main\<close>; a module with a global, an import, a
  function with a parameter and a local that calls the import and reads the position and
  the size of the embedded sub-module \<open>s\<close>; and the bytes that \<open>run\<close> returns for them.
\<close>

definition example_sub :: Module where
  "example_sub =
     Module [] []
       [\<lparr>name = ''main'', parameterNames = [], returns = False, locals = [], body = []\<rparr>] []"

definition example_import :: FunctionImport where
  "example_import =
     \<lparr>module = ''eth'', externalName = ''e'', internalName = ''i1'',
      paramTypes = [''i32'', ''i64''], returnType = Some ''i64''\<rparr>"

definition example_main :: FunctionDefinition where
  "example_main =
     \<lparr>name = ''main'', parameterNames = [''x''], returns = True,
      locals = [VariableDeclaration ''y''],
      body = [LocalAssignment ''y'' (BuiltinCall ''dataoffset'' [StringLiteral ''s'']),
              BuiltinCall ''datasize'' [StringLiteral ''s''],
              FunctionCall ''i1'' [Literal 7]]\<rparr>"

definition example_module :: Module where
  "example_module =
     Module [GlobalVariableDeclaration ''g''] [example_import] [example_main]
       [(''s'', example_sub)]"

definition example_sub_bytes :: bytes where
  "example_sub_bytes =
     [0, 97, 115, 109, 1, 0, 0, 0, 1, 4, 1, 96, 0, 0, 2, 1, 0, 3, 2, 1, 0,
      5, 3, 1, 0, 1, 6, 1, 0, 7, 17, 2, 6, 109, 101, 109, 111, 114, 121, 2,
      0, 4, 109, 97, 105, 110, 0, 0, 10, 6, 1, 4, 1, 0, 126, 11]"

definition example_module_bytes :: bytes where
  "example_module_bytes =
     [0, 97, 115, 109, 1, 0, 0, 0, 1, 12, 2, 96, 1, 126, 1, 126, 96, 2, 127,
      126, 1, 126, 2, 9, 1, 3, 101, 116, 104, 1, 101, 0, 1, 3, 2, 1, 0, 5,
      3, 1, 0, 1, 6, 6, 1, 126, 1, 66, 0, 11, 7, 17, 2, 6, 109, 101, 109,
      111, 114, 121, 2, 0, 4, 109, 97, 105, 110, 0, 1, 0, 58, 1, 115]
     @ example_sub_bytes
     @ [10, 17, 1, 15, 1, 1, 126, 66, 201, 0, 33, 1, 66, 56, 66, 7, 16, 0, 11]"

text \<open>
  An encoder state as it is when the Code section of \<open>example_module\<close> is emitted, the
  Code section of that module, and a module whose function contains a \<^verbatim>\<open>Break\<close>.
\<close>

definition example_state :: BinaryTransform where
  "example_state =
     \<lparr>m_locals = [], m_globals = [(''g'', 0)], m_functions = [(''i1'', 0), (''main'', 1)],
      m_functionTypes = [(''main'', 0), (''i1'', 1)], m_labels = [],
      m_subModulePosAndSize = [(''s'', (73, 56))]\<rparr>"

definition example_code :: bytes where
  "example_code = [10, 17, 1, 15, 1, 1, 126, 66, 201, 0, 33, 1, 66, 56, 66, 7, 16, 0, 11]"

definition example_break_fun :: FunctionDefinition where
  "example_break_fun =
     \<lparr>name = ''main'', parameterNames = [], returns = False, locals = [],
      body = [Loop ''l'' [Break ''l'']]\<rparr>"

definition example_break_module :: Module where
  "example_break_module = Module [] [] [example_break_fun] []"

text \<open>
  A module with 256 imported functions, named by the 256 one-character strings, and a
  function \<open>main\<close> that calls itself.
\<close>

definition many_imports :: "FunctionImport list" where
  "many_imports =
     map (\<lambda>i. \<lparr>module = ''m'', externalName = ''f'', internalName = [char_of i],
                paramTypes = [], returnType = None\<rparr>) [0..<256]"

definition self_call_main :: FunctionDefinition where
  "self_call_main =
     \<lparr>name = ''main'', parameterNames = [], returns = False, locals = [],
      body = [FunctionCall ''main'' []]\<rparr>"

definition many_functions_module :: Module where
  "many_functions_module = Module [] many_imports [self_call_main] []"

chapter \<open>Properties\<close>

section \<open>Bit patterns of the LEB128 bytes\<close>

lemma bit_int_0x7f: "bit (0x7f :: int) k = (k < 7)"
  using bit_mask_iff [of 7 k, where 'a = int] by (simp add: mask_eq_exp_minus_1)

lemma bit_int_0xff: "bit (0xff :: int) k = (k < 8)"
  using bit_mask_iff [of 8 k, where 'a = int] by (simp add: mask_eq_exp_minus_1)

lemma bit_int_0x80: "bit (0x80 :: int) k = (k = 7)"
  using bit_exp_iff [of 7 k, where 'a = int] by auto

lemma bit_int_0x40: "bit (0x40 :: int) k = (k = 6)"
  using bit_exp_iff [of 6 k, where 'a = int] by auto

lemmas bit_consts = bit_int_0x7f bit_int_0xff bit_int_0x80 bit_int_0x40

lemma big_cont: "(ucast (0x80 OR ((n::64 word) AND 0x7f)) :: byte) AND 0x80 = 0x80"
  by (rule bit_word_eqI) (auto simp: bit_simps bit_consts)

lemma big_low: "(ucast (0x80 OR ((n::64 word) AND 0x7f)) :: byte) AND 0x7f = ucast n AND 0x7f"
  by (rule bit_word_eqI) (auto simp: bit_simps bit_consts)

lemma le_0x7f_iff: "((n::64 word) \<le> 0x7f) = (drop_bit 7 n = 0)"
proof -
  have "(n \<le> 0x7f) = (unat n < 2 ^ 7)"
    by (simp add: word_le_nat_alt) arith
  also have "\<dots> = (unat n div 2 ^ 7 = 0)" by (simp add: div_eq_0_iff)
  also have "\<dots> = (unat (drop_bit 7 n) = 0)" by (simp add: drop_bit_eq_div unat_div)
  finally show ?thesis by (simp add: unat_eq_0)
qed

lemma small_last: "n \<le> 0x7f \<Longrightarrow> (ucast (n :: 64 word) :: byte) AND 0x80 = 0"
proof -
  assume "n \<le> 0x7f"
  then have "drop_bit 7 n = 0" by (simp add: le_0x7f_iff)
  then have "\<not> bit n 7"
    using bit_drop_bit_eq [of 7 n, THEN fun_cong, of 0] by (simp add: bit_simps)
  then show ?thesis
    by (intro bit_word_eqI) (auto simp: bit_simps bit_consts)
qed

lemma small_unat: "n \<le> 0x7f \<Longrightarrow> unat (ucast (n :: 64 word) :: byte) = unat n"
  by (simp add: unsigned_ucast_eq take_bit_eq_mod word_le_nat_alt)

lemma unat_low7: "unat ((ucast (n::64 word) :: byte) AND 0x7f) = unat n mod 128"
proof -
  have "(ucast n :: byte) AND 0x7f = ucast (take_bit 7 n)"
    by (rule bit_word_eqI) (auto simp: bit_simps bit_consts)
  then have "unat ((ucast n :: byte) AND 0x7f) = unat n mod 128 mod 256"
    by (simp add: unsigned_ucast_eq take_bit_eq_mod unat_mod)
  also have "\<dots> = unat n mod 128" by (simp add: mod_mod_cancel)
  finally show ?thesis .
qed

section \<open>Unsigned LEB128\<close>

lemma lebEncode_big:
  "0x7f < n \<Longrightarrow> lebEncode n = ucast (0x80 OR (n AND 0x7f)) # lebEncode (drop_bit 7 n)"
  by (subst lebEncode.simps) simp

lemma lebEncode_small: "\<not> 0x7f < n \<Longrightarrow> lebEncode n = [ucast n]"
  by (subst lebEncode.simps) simp

lemma lebEncode_not_Nil: "lebEncode n \<noteq> []"
  by (subst lebEncode.simps) simp

lemma lebDecode_lebEncode: "lebDecode (lebEncode n @ rest) = Some (unat n, rest)"
proof (induction n rule: lebEncode.induct)
  case (1 n)
  show ?case
  proof (cases "0x7f < n")
    case True
    then show ?thesis using 1
      by (simp add: lebEncode_big big_cont big_low unat_low7 drop_bit_eq_div unat_div)
  next
    case False
    then show ?thesis
      by (simp add: lebEncode_small small_last small_unat)
  qed
qed

lemma lebEncode_single: "(length (lebEncode n) = 1) = (n \<le> 0x7f)"
proof (cases "0x7f < n")
  case True
  then show ?thesis using lebEncode_not_Nil [of "drop_bit 7 n"]
    by (auto simp add: lebEncode_big)
next
  case False
  then show ?thesis by (simp add: lebEncode_small)
qed

lemma lebEncode_continuation:
  "map (\<lambda>b. b AND 0x80) (lebEncode n) = replicate (length (lebEncode n) - 1) 0x80 @ [0]"
proof (induction n rule: lebEncode.induct)
  case (1 n)
  show ?case
  proof (cases "0x7f < n")
    case True
    obtain k where k: "length (lebEncode (drop_bit 7 n)) = Suc k"
      using lebEncode_not_Nil [of "drop_bit 7 n"] by (cases "lebEncode (drop_bit 7 n)") auto
    show ?thesis using 1 True k
      by (simp add: lebEncode_big big_cont)
  next
    case False
    then show ?thesis
      by (simp add: lebEncode_small small_last)
  qed
qed

lemma lebEncode_groups:
  "map (\<lambda>b. b AND 0x7f) (lebEncode n) =
   map (\<lambda>i. ucast (drop_bit (7 * i) n) AND 0x7f) [0..<length (lebEncode n)]"
proof (induction n rule: lebEncode.induct)
  case (1 n)
  show ?case
  proof (cases "0x7f < n")
    case True
    have "map (\<lambda>i. ucast (drop_bit (7 * i) n) AND (0x7f::byte))
            [0..<Suc (length (lebEncode (drop_bit 7 n)))]
      = (ucast n AND 0x7f) # map (\<lambda>i. ucast (drop_bit (7 * i) (drop_bit 7 n)) AND 0x7f)
            [0..<length (lebEncode (drop_bit 7 n))]"
      by (simp only: upt_conv_Cons [of 0] map_Suc_upt [symmetric] list.map map_map o_def)
         (simp add: ac_simps)
    then show ?thesis using 1 True
      by (simp add: lebEncode_big big_low)
  next
    case False
    then show ?thesis
      by (simp add: lebEncode_small)
  qed
qed

text \<open>
  Claim C7. For every 64-bit \<open>n\<close> the unsigned LEB128 decoder reads \<open>lebEncode n\<close> back as
  \<open>n\<close> (and leaves whatever follows it unread); the low seven bits of the \<open>i\<close>-th byte are
  bits \<open>7i .. 7i+6\<close> of \<open>n\<close>; the continuation bit is set in every byte but the last; the
  output is one byte exactly when \<open>n \<le> 127\<close>; and 0 is encoded as the byte \<open>0x00\<close>.
\<close>

theorem lebEncode_roundtrip:
  "lebDecode (lebEncode n @ rest) = Some (unat n, rest)
   \<and> map (\<lambda>b. b AND 0x7f) (lebEncode n) =
       map (\<lambda>i. ucast (drop_bit (7 * i) n) AND 0x7f) [0..<length (lebEncode n)]
   \<and> map (\<lambda>b. b AND 0x80) (lebEncode n) = replicate (length (lebEncode n) - 1) 0x80 @ [0]
   \<and> (length (lebEncode n) = 1) = (unat n \<le> 127)
   \<and> lebEncode 0 = [0x00]"
proof -
  have "(length (lebEncode n) = 1) = (unat n \<le> 127)"
    using lebEncode_single [of n] by (simp add: word_le_nat_alt)
  moreover have "lebEncode 0 = [0x00]" by (simp add: lebEncode_small)
  ultimately show ?thesis
    using lebDecode_lebEncode [of n rest] lebEncode_groups [of n] lebEncode_continuation [of n]
    by blast
qed

section \<open>Signed LEB128\<close>

lemma sdiv_128_cases:
  "(k::int) sdiv 128 = (if 0 \<le> k then k div 128 else - ((- k) div 128))"
  by (simp add: signed_divide_int_def sgn_if)

lemma sint_bounds64: "- (2 ^ 63) \<le> sint (n::64 word)" "sint (n::64 word) < 2 ^ 63"
  using sint_ge [of n] sint_lt [of n] by simp_all

lemma sint_sdiv64_128: "sint (sdiv64 n 0x80) = sint n sdiv 128"
proof -
  have "- (2 ^ 63) \<le> sint n sdiv 128 \<and> sint n sdiv 128 < 2 ^ 63"
    using sint_bounds64 [of n] unfolding sdiv_128_cases by (simp split: if_splits) linarith
  then show ?thesis
    by (simp add: sdiv64_def sint_sbintrunc' signed_take_bit_int_eq_self)
qed

lemma sint_neg64: "sint (n::64 word) \<noteq> - (2 ^ 63) \<Longrightarrow> sint (- n) = - sint n"
  using sint_bounds64 [of n]
  by (simp add: sint_word_minus signed_take_bit_int_eq_self)

lemma uint_eq_sint: "0 \<le> sint (n::64 word) \<Longrightarrow> uint n = sint n"
  using sint_bounds64 [of n]
  by (simp add: uint_sint take_bit_int_eq_self)

lemma abs_sdiv_128_less: "\<not> (0 \<le> k \<and> k < 0x40) \<Longrightarrow> \<bar>(k::int) sdiv 128\<bar> < \<bar>k\<bar>"
  unfolding sdiv_128_cases by (simp split: if_splits) linarith

lemma small_nonneg_bits:
  assumes "0 \<le> sint (n::64 word)" "sint n < 0x40" "6 \<le> k"
  shows "\<not> bit n k"
proof -
  have "uint n < 64" using assms uint_eq_sint [of n] by linarith
  moreover have "int (unat n) = uint n" by (rule uint_nat [symmetric])
  ultimately have "unat n < 64" by linarith
  then have "unat (drop_bit 6 n) = 0"
    by (simp add: drop_bit_eq_div unat_div)
  then have "drop_bit 6 n = 0" by (simp add: unat_eq_0)
  then have "\<not> bit (drop_bit 6 n) (k - 6)" by simp
  then show ?thesis using assms(3) by (simp add: bit_drop_bit_eq)
qed

lemma small_nonneg_byte:
  assumes "0 \<le> sint (n::64 word)" "sint n < 0x40"
  shows "(ucast (n AND 0xff) :: byte) AND 0x80 = 0"
    and "(ucast (n AND 0xff) :: byte) AND 0x40 = 0"
    and "uint (ucast (n AND 0xff) :: byte) = sint n"
proof -
  have nb: "\<not> bit n k" if "6 \<le> k" for k using small_nonneg_bits [OF assms that] .
  show "(ucast (n AND 0xff) :: byte) AND 0x80 = 0"
    by (rule bit_word_eqI) (auto simp: bit_simps bit_consts nb)
  show "(ucast (n AND 0xff) :: byte) AND 0x40 = 0"
    by (rule bit_word_eqI) (auto simp: bit_simps bit_consts nb)
  have "n AND 0xff = n"
  proof (rule bit_word_eqI)
    fix k assume "k < LENGTH(64)"
    show "bit (n AND 0xff) k = bit n k"
      using nb [of k] by (cases "k < 8") (auto simp: bit_simps bit_consts)
  qed
  moreover have "uint n < 2 ^ 8" using assms uint_eq_sint [of n] by simp
  ultimately show "uint (ucast (n AND 0xff) :: byte) = sint n"
    using assms(1) by (simp add: unsigned_ucast_eq take_bit_int_eq_self uint_eq_sint)
qed

lemma signed_big_byte:
  "((0x80 :: byte) OR ucast ((n::64 word) AND 0x7f)) AND 0x80 = 0x80"
  "((0x80 :: byte) OR ucast ((n::64 word) AND 0x7f)) AND 0x7f = ucast n AND 0x7f"
  by (rule bit_word_eqI; auto simp: bit_simps bit_consts)+

lemma uint_low7: "uint ((ucast (n::64 word) :: byte) AND 0x7f) = uint n mod 128"
proof -
  have "uint ((ucast n :: byte) AND 0x7f) = int (unat ((ucast n :: byte) AND 0x7f))"
    by (rule uint_nat)
  also have "\<dots> = int (unat n) mod 128" by (simp only: unat_low7 zmod_int) simp
  also have "\<dots> = uint n mod 128" by (simp only: uint_nat)
  finally show ?thesis .
qed

lemma lebEncodeSigned_single1:
  "0 \<le> sint n \<and> sint n < 0x40 \<Longrightarrow> lebEncodeSigned n = [ucast (n AND 0xff)]"
  by (subst lebEncodeSigned.simps) (simp only: if_True if_False simp_thms)

lemma lebEncodeSigned_single2:
  "\<not> (0 \<le> sint n \<and> sint n < 0x40) \<Longrightarrow> 0 < sint (- n) \<and> sint (- n) < 0x40 \<Longrightarrow>
   lebEncodeSigned n = [ucast ((n + 0x80) AND 0xff)]"
  by (subst lebEncodeSigned.simps) (simp only: if_True if_False simp_thms)

lemma lebEncodeSigned_rec:
  "\<not> (0 \<le> sint n \<and> sint n < 0x40) \<Longrightarrow> \<not> (0 < sint (- n) \<and> sint (- n) < 0x40) \<Longrightarrow>
   lebEncodeSigned n = (0x80 OR ucast (n AND 0x7f)) # lebEncodeSigned (sdiv64 n 0x80)"
  by (subst lebEncodeSigned.simps) (simp only: if_True if_False simp_thms)

text \<open>
  On the non-negative half of \<^verbatim>\<open>int64_t\<close> the output of \<open>lebEncodeSigned\<close> is the signed
  LEB128 encoding: truncating division and the arithmetic shift agree there.
\<close>

lemma lebDecodeSigned_nonneg:
  "0 \<le> sint n \<Longrightarrow> lebDecodeSigned (lebEncodeSigned n @ rest) = Some (sint n, rest)"
proof (induction n rule: lebEncodeSigned.induct)
  case (1 n)
  show ?case
  proof (cases "sint n < 0x40")
    case True
    with 1 show ?thesis
      by (simp add: lebEncodeSigned_single1 small_nonneg_byte)
  next
    case False
    have neg: "sint (- n) = - sint n"
      using 1(2) by (intro sint_neg64) simp
    have d: "sint (sdiv64 n 0x80) = sint n div 128"
      using 1(2) by (simp add: sint_sdiv64_128 sdiv_128_cases)
    then have "0 \<le> sint (sdiv64 n 0x80)" using 1(2) by simp
    then have ih: "lebDecodeSigned (lebEncodeSigned (sdiv64 n 0x80) @ rest)
                     = Some (sint n div 128, rest)"
      using 1 False neg d by simp
    have "lebEncodeSigned n = (0x80 OR ucast (n AND 0x7f)) # lebEncodeSigned (sdiv64 n 0x80)"
      using False 1(2) neg by (intro lebEncodeSigned_rec) simp_all
    then show ?thesis using ih 1(2)
      by (simp add: signed_big_byte uint_low7 uint_eq_sint)
  qed
qed

text \<open>
  Claim C1. The claim fails on the code at \<open>n = -65\<close>: the encoder takes the third branch,
  emits \<open>0x80 | (n & 0x7f) = 0xBF\<close> and recurses on \<open>-65 / 0x80 = 0\<close> (the arithmetic shift
  \<open>-65 >> 7\<close> is \<open>-1\<close>), so the output is \<open>BF 00\<close>, which signed LEB128 reads as \<open>63\<close>. At
  \<open>n = -64\<close>, inside the single-byte range of the claim, the second test \<open>-n < 0x40\<close> fails
  and the output has the two bytes \<open>C0 00\<close>, read as \<open>64\<close>.
\<close>

theorem lebEncodeSigned_minus_65:
  "lebEncodeSigned (- 65) = [0xBF, 0x00]
   \<and> lebDecodeSigned [0xBF, 0x00] = Some (63, [])
   \<and> sint (- 65 :: 64 word) = - 65
   \<and> sdiv64 (- 65) 0x80 = 0
   \<and> signed_drop_bit 7 (- 65 :: 64 word) = - 1
   \<and> lebEncodeSigned (- 64) = [0xC0, 0x00]
   \<and> lebDecodeSigned [0xC0, 0x00] = Some (64, [])"
  by code_simp

lemma abs_sdiv_128_eq: "\<bar>(k::int) sdiv 128\<bar> = \<bar>k\<bar> div 128"
  unfolding sdiv_128_cases by (simp split: if_splits)

lemma lebEncodeSigned_fuel_enough:
  "\<bar>sint n\<bar> < 64 * 128 ^ k \<Longrightarrow> lebEncodeSigned_fuel (Suc k) n = Some (lebEncodeSigned n)"
proof (induction k arbitrary: n)
  case 0
  show ?case
  proof (cases "0 \<le> sint n")
    case True
    with 0 show ?thesis by (simp add: lebEncodeSigned_single1)
  next
    case False
    with 0 have "sint (- n) = - sint n" by (intro sint_neg64) simp
    with 0 False show ?thesis by (simp add: lebEncodeSigned_single2)
  qed
next
  case (Suc k)
  consider (a) "0 \<le> sint n \<and> sint n < 0x40"
    | (b) "\<not> (0 \<le> sint n \<and> sint n < 0x40)" "0 < sint (- n) \<and> sint (- n) < 0x40"
    | (c) "\<not> (0 \<le> sint n \<and> sint n < 0x40)" "\<not> (0 < sint (- n) \<and> sint (- n) < 0x40)"
    by blast
  then show ?case
  proof cases
    case a
    show ?thesis
      unfolding lebEncodeSigned_single1 [OF a] lebEncodeSigned_fuel.simps(2) [of "Suc k"]
      using a by (simp only: if_True simp_thms)
  next
    case b
    show ?thesis
      unfolding lebEncodeSigned_single2 [OF b] lebEncodeSigned_fuel.simps(2) [of "Suc k"]
      using b by (simp only: if_True if_False simp_thms)
  next
    case c
    have "\<bar>sint n\<bar> div 128 < 64 * 128 ^ k"
      using Suc.prems by simp
    then have "\<bar>sint (sdiv64 n 0x80)\<bar> < 64 * 128 ^ k"
      by (simp add: sint_sdiv64_128 abs_sdiv_128_eq)
    then have "lebEncodeSigned_fuel (Suc k) (sdiv64 n 0x80)
                 = Some (lebEncodeSigned (sdiv64 n 0x80))"
      by (rule Suc.IH)
    then show ?thesis
      unfolding lebEncodeSigned_rec [OF c] lebEncodeSigned_fuel.simps(2) [of "Suc k"]
      using c by (simp only: if_False option.map simp_thms)
  qed
qed

text \<open>
  Claim C10. \<open>lebEncodeSigned\<close> returns for every 64-bit input: ten levels of the recursion
  are enough (\<open>2 ^ 63 < 64 * 128 ^ 9\<close>), also for \<^verbatim>\<open>INT64_MIN\<close>. In the recursive branch
  the quotient \<^verbatim>\<open>_n / 0x80\<close> does not overflow (it is the truncated quotient of the signed
  values) and is strictly smaller in absolute value than \<^verbatim>\<open>_n\<close>.
\<close>

theorem lebEncodeSigned_total:
  "lebEncodeSigned_fuel 10 n = Some (lebEncodeSigned n)
   \<and> (\<not> (0 \<le> sint n \<and> sint n < 0x40) \<and> \<not> (0 < sint (- n) \<and> sint (- n) < 0x40)
        \<longrightarrow> sint (sdiv64 n 0x80) = sint n sdiv 128
          \<and> \<bar>sint (sdiv64 n 0x80)\<bar> < \<bar>sint n\<bar>)"
proof -
  have ten: "(10::nat) = Suc 9" by simp
  have "\<bar>sint n\<bar> < 64 * 128 ^ 9"
    using sint_bounds64 [of n] by simp
  then have "lebEncodeSigned_fuel 10 n = Some (lebEncodeSigned n)"
    unfolding ten by (rule lebEncodeSigned_fuel_enough)
  then show ?thesis
    by (auto simp: sint_sdiv64_128 intro: abs_sdiv_128_less)
qed

theorem lebEncodeSigned_total_witness:
  "lebEncodeSigned_fuel 10 (- 9223372036854775808) = Some (lebEncodeSigned (- 9223372036854775808))
   \<and> lebEncodeSigned (- 9223372036854775808) = [0x80, 0x80, 0x80, 0x80, 0x80, 0x80, 0x80, 0x80, 0x80, 0x7f]
   \<and> \<not> (0 \<le> sint (- 9223372036854775808 :: 64 word) \<and> sint (- 9223372036854775808 :: 64 word) < 0x40) 
   \<and> \<not> (0 < sint (- (- 9223372036854775808) :: 64 word) \<and> sint (- (- 9223372036854775808) :: 64 word) < 0x40)
   \<and> sint (sdiv64 (- 9223372036854775808) 0x80) = - 72057594037927936
   \<and> \<bar>sint (sdiv64 (- 9223372036854775808) 0x80)\<bar> < \<bar>sint (- 9223372036854775808 :: 64 word)\<bar>"
proof -
  have e: "lebEncodeSigned (- 9223372036854775808) = [0x80, 0x80, 0x80, 0x80, 0x80, 0x80, 0x80, 0x80, 0x80, 0x7f]"
    by code_simp
  have s: "sint (- 9223372036854775808 :: 64 word) = - 9223372036854775808" by simp
  have d: "sint (- 9223372036854775808 :: 64 word) sdiv 128 = - 72057594037927936"
    unfolding s by (simp add: sdiv_128_cases)
  show ?thesis
    using lebEncodeSigned_total [of "- 9223372036854775808"] e d by simp
qed

section \<open>Lowering of expressions\<close>

lemma bindE_simps [simp]:
  "bindE (Inl e) f = Inl e"
  "bindE (Inr v) f = f v"
  by (simp_all add: bindE_def)

lemma bindE_eq_Inr: "(bindE r f = Inr y) = (\<exists>v. r = Inr v \<and> f v = Inr y)"
  by (cases r) simp_all

lemma builtin_call_rest:
  "fn \<noteq> ''dataoffset'' \<Longrightarrow> fn \<noteq> ''datasize'' \<Longrightarrow>
   apply_visitor bt (BuiltinCall fn args) =
     bindE (visit bt args) (\<lambda>args.
          if fn = ''unreachable'' then Inr (opcode Opcode_Unreachable)
          else (case map_of builtins fn of
                  None \<Rightarrow> Inl (AssertionFailed (''Builtin '' @ fn @ '' not found''))
                | Some b \<Rightarrow>
                    Inr (args @ [b] @
                         (if str_find fn ''.load'' \<or> str_find fn ''.store''
                          then [3, 0] else []))))"
  by (simp only: apply_visitor.simps if_False)

declare apply_visitor.simps(5) [simp del]

lemma builtin_call_dataoffset:
  "apply_visitor bt (BuiltinCall ''dataoffset'' args) =
     bindE (vector_at args 0) (\<lambda>a.
     bindE (get_StringLiteral a) (\<lambda>nm.
     bindE (map_at (m_subModulePosAndSize bt) nm) (\<lambda>ps.
       Inr (opcode Opcode_I64Const @ lebEncodeSigned (of_nat (fst ps))))))"
  by (simp only: apply_visitor.simps(5) if_True simp_thms)

lemma builtin_call_datasize:
  "apply_visitor bt (BuiltinCall ''datasize'' args) =
     bindE (vector_at args 0) (\<lambda>a.
     bindE (get_StringLiteral a) (\<lambda>nm.
     bindE (map_at (m_subModulePosAndSize bt) nm) (\<lambda>ps.
       Inr (opcode Opcode_I64Const @ lebEncodeSigned (of_nat (snd ps))))))"
  by (simp add: apply_visitor.simps(5))

lemma unknown_builtin_call:
  "unknown_builtin fn \<Longrightarrow>
   apply_visitor bt (BuiltinCall fn args) =
     (case visit bt args of
        Inl err \<Rightarrow> Inl err
      | Inr b \<Rightarrow> Inl (AssertionFailed (''Builtin '' @ fn @ '' not found'')))"
proof -
  assume "unknown_builtin fn"
  then have n: "fn \<noteq> ''dataoffset''" "fn \<noteq> ''datasize''" "fn \<noteq> ''unreachable''"
    "map_of builtins fn = None"
    by (simp_all add: unknown_builtin_def)
  show ?thesis
    by (cases "visit bt args") (simp_all add: builtin_call_rest [OF n(1,2)] n(3,4))
qed

text \<open>
  Claim C6. The claim fails on the code for a call of \<open>unreachable\<close> that has arguments:
  the arguments are lowered (\<^verbatim>\<open>bytes args = visit(_call.arguments)\<close>), but the branch for
  \<open>unreachable\<close> returns the opcode alone and drops \<open>args\<close>, where the branch for the
  table builtins returns \<open>args\<close> followed by the opcode. With the argument \<open>Literal 1\<close>,
  whose lowering is \<open>42 01\<close>, the call is lowered to the single byte \<open>00\<close>.
\<close>

theorem unreachable_drops_arguments:
  "apply_visitor bt (Literal 1) = Inr [0x42, 0x01]
   \<and> visit bt [Literal 1] = Inr [0x42, 0x01]
   \<and> apply_visitor bt (BuiltinCall ''unreachable'' [Literal 1]) = Inr [0x00]
   \<and> apply_visitor bt (BuiltinCall ''i64.eqz'' [Literal 1]) = Inr [0x42, 0x01, 0x50]"
proof -
  have l: "lebEncodeSigned 1 = [0x01]" by code_simp
  have v: "visit bt [Literal 1] = Inr [0x42, 0x01]" by (simp add: opcode_def l)
  have b: "map_of builtins ''i64.eqz'' = Some 0x50" by code_simp
  have s: "\<not> str_find ''i64.eqz'' ''.load''" "\<not> str_find ''i64.eqz'' ''.store''"
    by code_simp+
  show ?thesis
    using v by (simp add: builtin_call_rest opcode_def l b s)
qed

section \<open>Unsupported constructs\<close>

lemma unsupported_fails:
  "unsupported e \<Longrightarrow> \<exists>err. apply_visitor bt e = Inl err"
  "unsupported_list es \<Longrightarrow> \<exists>err. visit bt es = Inl err"
proof (induction bt e and bt es rule: apply_visitor_visit.induct)
  case (5 bt functionName arguments)
  from "5.prems" have n: "functionName \<noteq> ''dataoffset''" "functionName \<noteq> ''datasize''"
    and d: "unsupported_list arguments \<or> unknown_builtin functionName"
    by simp_all
  show ?case
  proof (cases "visit bt arguments")
    case (Inl e)
    then show ?thesis by (simp only: builtin_call_rest [OF n] bindE_simps) blast
  next
    case (Inr b)
    with "5.IH" [OF n] d have "unknown_builtin functionName" by auto
    then show ?thesis using Inr by (simp only: unknown_builtin_call sum.case) blast
  qed
next
  case (6 bt functionName arguments)
  then show ?case by auto
next
  case (7 bt nm v)
  then show ?case by auto
next
  case (8 bt nm v)
  then show ?case by auto
next
  case (9 bt condition statements elseStatements)
  then show ?case
    apply (cases "apply_visitor bt condition")
     apply simp
    apply (cases "visit (bt\<lparr>m_labels := [] # m_labels bt\<rparr>) statements")
    apply simp
    apply (cases elseStatements)
     apply auto
    done
next
  case (10 bt labelName statements)
  then show ?case by auto
next
  case (13 bt statements)
  then show ?case by auto
next
  case (15 bt expr exprs)
  then show ?case
    by (cases "apply_visitor bt expr"; cases "visit bt exprs") auto
qed simp_all

lemma unsupported_list_iff: "unsupported_list es = (\<exists>e\<in>set es. unsupported e)"
  by (induction es) simp_all

lemma functionDefinition_unsupported:
  "unsupported_list (body f) \<Longrightarrow> \<exists>err. functionDefinition bt f = Inl err"
  using unsupported_fails(2) [of "body f" "bt\<lparr>m_locals := rebuildLocals f\<rparr>"]
  by (auto simp: functionDefinition_def Let_def)

lemma codeEntries_unsupported:
  "\<exists>f\<in>set fs. unsupported_list (body f) \<Longrightarrow> \<exists>err. codeEntries bt fs result = Inl err"
proof (induction fs arbitrary: bt result)
  case Nil
  then show ?case by simp
next
  case (Cons f fs)
  show ?case
  proof (cases "functionDefinition bt f")
    case (Inl e)
    then show ?thesis by simp
  next
    case (Inr r)
    then have "\<not> unsupported_list (body f)"
      using functionDefinition_unsupported [of f bt] by auto
    with Cons.prems have "\<exists>f\<in>set fs. unsupported_list (body f)" by simp
    from Cons.IH [OF this] Inr show ?thesis by (cases r) simp
  qed
qed

lemma codeSection_unsupported:
  "\<exists>f\<in>set fs. unsupported_list (body f) \<Longrightarrow> \<exists>err. codeSection bt fs = Inl err"
  using codeEntries_unsupported [of fs bt "lebEncode (of_nat (length fs))"]
  by (auto simp: codeSection_def)

lemma run_unsupported:
  assumes "f \<in> set (functions_m m)" "e \<in> set (body f)" "unsupported e"
  shows "\<exists>err. run m = Inl err"
proof (cases m)
  case (Module gs imps funs subs)
  have u: "\<exists>f\<in>set funs. unsupported_list (body f)"
    using assms Module by (auto simp: unsupported_list_iff)
  show ?thesis
  proof (cases "sections gs imps funs (map (\<lambda>(nm, sub). (nm, run sub)) subs)")
    case (Inl err)
    then show ?thesis using Module by simp
  next
    case (Inr r)
    obtain ret bt where r: "r = (ret, bt)" by (cases r)
    from codeSection_unsupported [OF u, of bt] obtain err where "codeSection bt funs = Inl err" ..
    then show ?thesis using Module Inr r by simp
  qed
qed

text \<open>
  Claim C9. Lowering a \<^verbatim>\<open>StringLiteral\<close>, a \<^verbatim>\<open>Break\<close> or a \<^verbatim>\<open>BreakIf\<close> fails with the
  assertion that names the construct. Lowering a call of an unknown builtin always fails:
  its arguments are lowered first, and when they lower the failure is the assertion
  \<open>Builtin <name> not found\<close> (when one of them fails, the failure is that argument's).
  No bytes come with a failure: an expression that contains an unsupported construct at a
  lowered place has no lowering, and \<open>run\<close> returns an error, not a byte vector, for a
  module with such an expression in the body of a function.
\<close>

theorem unsupported_constructs_fail:
  "apply_visitor bt (StringLiteral s) = Inl (AssertionFailed ''String literals not yet implemented'')
   \<and> apply_visitor bt (Break l) = Inl (AssertionFailed ''br not yet implemented.'')
   \<and> apply_visitor bt (BreakIf l) = Inl (AssertionFailed ''br_if not yet implemented.'')
   \<and> (unknown_builtin fn \<longrightarrow>
        (\<exists>err. apply_visitor bt (BuiltinCall fn args) = Inl err)
        \<and> apply_visitor bt (BuiltinCall fn args) =
            (case visit bt args of
               Inl err \<Rightarrow> Inl err
             | Inr b \<Rightarrow> Inl (AssertionFailed (''Builtin '' @ fn @ '' not found''))))
   \<and> (unsupported e \<longrightarrow> (\<exists>err. apply_visitor bt e = Inl err))
   \<and> (f \<in> set (functions_m m) \<and> e \<in> set (body f) \<and> unsupported e
        \<longrightarrow> (\<exists>err. run m = Inl err))"
proof -
  have "\<exists>err. apply_visitor bt (BuiltinCall fn args) = Inl err" if "unknown_builtin fn"
    using unknown_builtin_call [OF that, of bt args] by (cases "visit bt args") simp_all
  then show ?thesis
    using unknown_builtin_call [of fn bt args] unsupported_fails(1) [of e bt]
      run_unsupported [of f m e]
    by simp
qed

theorem unsupported_constructs_fail_witness:
  "unknown_builtin ''foo''
   \<and> apply_visitor example_state (BuiltinCall ''foo'' [Literal 0])
       = Inl (AssertionFailed ''Builtin foo not found'')
   \<and> unsupported (Loop ''l'' [Break ''l''])
   \<and> (\<exists>err. apply_visitor example_state (Loop ''l'' [Break ''l'']) = Inl err)
   \<and> example_break_fun \<in> set (functions_m example_break_module)
   \<and> Loop ''l'' [Break ''l''] \<in> set (body example_break_fun)
   \<and> (\<exists>err. run example_break_module = Inl err)"
proof -
  have u: "unknown_builtin ''foo''" by code_simp
  have v: "visit example_state [Literal 0] = Inr [0x42, 0x00]" by code_simp
  have m: "example_break_fun \<in> set (functions_m example_break_module)"
    by (simp add: example_break_module_def)
  have b: "Loop ''l'' [Break ''l''] \<in> set (body example_break_fun)"
    by (simp add: example_break_fun_def)
  have s: "unsupported (Loop ''l'' [Break ''l''])" by simp
  show ?thesis
    using unsupported_constructs_fail [where bt = example_state and fn = "''foo''"
        and args = "[Literal 0]" and e = "Loop ''l'' [Break ''l'']"
        and f = example_break_fun and m = example_break_module] u v m b s
    by simp
qed

section \<open>Function bodies\<close>

lemma map_of_map_assign: "map_of (map_assign m k v) = (map_of m)(k \<mapsto> v)"
  by (simp add: map_assign_def update_conv')

lemma map_at_eq_Inr: "(map_at m k = Inr v) = (map_of m k = Some v)"
  by (simp add: map_at_def split: option.splits)

lemma assignIndices_snd: "snd (assignIndices m nms idx) = idx + length nms"
  by (induction m nms idx rule: assignIndices.induct) simp_all

lemma assignIndices_append:
  "assignIndices m (xs @ ys) idx =
     (case assignIndices m xs idx of (m', idx') \<Rightarrow> assignIndices m' ys idx')"
  by (induction m xs idx rule: assignIndices.induct) simp_all

lemma assignIndices_other:
  "x \<notin> set nms \<Longrightarrow> map_of (fst (assignIndices m nms idx)) x = map_of m x"
  by (induction m nms idx rule: assignIndices.induct) (simp_all add: map_of_map_assign)

lemma assignIndices_nth:
  "distinct nms \<Longrightarrow> i < length nms \<Longrightarrow>
   map_of (fst (assignIndices m nms idx)) (nms ! i) = Some (idx + i)"
proof (induction m nms idx arbitrary: i rule: assignIndices.induct)
  case (1 m idx)
  then show ?case by simp
next
  case (2 m nm nms idx)
  show ?case
  proof (cases i)
    case 0
    then show ?thesis using 2 by (simp add: assignIndices_other map_of_map_assign)
  next
    case (Suc j)
    then show ?thesis using 2 by simp
  qed
qed

lemma rebuildLocals_eq: "rebuildLocals f = fst (assignIndices [] (local_names f) 0)"
  by (simp add: rebuildLocals_def local_names_def assignIndices_append split: prod.splits)

lemma rebuildLocals_nth:
  "distinct (local_names f) \<Longrightarrow> j < length (local_names f) \<Longrightarrow>
   map_at (rebuildLocals f) (local_names f ! j) = Inr j"
  by (simp add: rebuildLocals_eq map_at_eq_Inr assignIndices_nth)

lemma lebEncode_1: "lebEncode 1 = [1]"
  by (simp add: lebEncode_small)

lemma functionDefinition_eq_Inr:
  "(functionDefinition bt f = Inr (out, bt')) =
   (\<exists>b. visit (bt\<lparr>m_locals := rebuildLocals f\<rparr>) (body f) = Inr b
        \<and> out = function_entry f b \<and> bt' = bt\<lparr>m_locals := rebuildLocals f\<rparr>)"
  by (auto simp: functionDefinition_def function_entry_def prefixSize_def lebEncode_1 Let_def
        bindE_eq_Inr)

lemma codeEntries_Inr:
  "codeEntries bt fs result = Inr (out, bt') \<Longrightarrow>
   \<exists>bodies. length bodies = length fs
     \<and> out = result @ concat (map2 function_entry fs bodies)
     \<and> (\<forall>i<length fs. visit (bt\<lparr>m_locals := rebuildLocals (fs ! i)\<rparr>) (body (fs ! i))
                          = Inr (bodies ! i))
     \<and> (\<exists>x. bt' = bt\<lparr>m_locals := x\<rparr>)"
proof (induction fs arbitrary: bt result)
  case Nil
  then show ?case by (auto intro: exI [of _ "m_locals bt"])
next
  case (Cons f fs)
  from Cons.prems obtain b bt1 where
    fd: "functionDefinition bt f = Inr (b, bt1)" and
    rest: "codeEntries bt1 fs (result @ b) = Inr (out, bt')"
    by (auto simp: bindE_eq_Inr)
  from fd obtain b0 where b0: "visit (bt\<lparr>m_locals := rebuildLocals f\<rparr>) (body f) = Inr b0"
    "b = function_entry f b0" "bt1 = bt\<lparr>m_locals := rebuildLocals f\<rparr>"
    by (auto simp: functionDefinition_eq_Inr)
  from Cons.IH [OF rest] obtain bodies x where
    bs: "length bodies = length fs"
        "out = (result @ b) @ concat (map2 function_entry fs bodies)"
        "\<forall>i<length fs. visit (bt1\<lparr>m_locals := rebuildLocals (fs ! i)\<rparr>) (body (fs ! i))
                          = Inr (bodies ! i)"
        "bt' = bt1\<lparr>m_locals := x\<rparr>"
    by blast
  have "\<forall>i<length (f # fs). visit (bt\<lparr>m_locals := rebuildLocals ((f # fs) ! i)\<rparr>)
            (body ((f # fs) ! i)) = Inr ((b0 # bodies) ! i)"
  proof (intro allI impI)
    fix i assume "i < length (f # fs)"
    then show "visit (bt\<lparr>m_locals := rebuildLocals ((f # fs) ! i)\<rparr>)
            (body ((f # fs) ! i)) = Inr ((b0 # bodies) ! i)"
      using b0 bs(3) by (cases i) simp_all
  qed
  moreover have "out = result @ concat (map2 function_entry (f # fs) (b0 # bodies))"
    using bs(2) b0(2) by simp
  moreover have "length (b0 # bodies) = length (f # fs)" using bs(1) by simp
  moreover have "bt' = bt\<lparr>m_locals := x\<rparr>" using bs(4) b0(3) by simp
  ultimately show ?case by blast
qed

lemma section_frame_prefixSize: "[sid] @ prefixSize p = section_frame sid p"
  by (simp add: section_frame_def prefixSize_def)

text \<open>
  Claim C8. When the Code section is emitted, it is the section id \<open>0x0A\<close>, the length of
  the payload, the number of functions and one entry for each function definition, in
  order. The entry of a function is the LEB128 of the length of what follows, the byte
  \<open>0x01\<close> (one group of locals), the LEB128 of the number of declared locals (the parameters
  are not counted), the type byte \<open>0x7E\<close>, the lowering of the body and the byte \<open>0x0B\<close>.
  The body is lowered with \<^verbatim>\<open>m_locals\<close> rebuilt for the function: when the names of the
  parameters and the locals are distinct, the \<open>j\<close>-th of them (parameters first, in order of
  declaration) has the index \<open>j\<close>.
\<close>

theorem code_section_entries:
  assumes "codeSection bt funs = Inr (cs, bt')"
  shows "\<exists>bodies. length bodies = length funs
     \<and> cs = section_frame 0x0a
              (lebEncode (of_nat (length funs)) @ concat (map2 function_entry funs bodies))
     \<and> (\<forall>i<length funs.
           visit (bt\<lparr>m_locals := rebuildLocals (funs ! i)\<rparr>) (body (funs ! i))
             = Inr (bodies ! i)
           \<and> (distinct (local_names (funs ! i)) \<longrightarrow>
                (\<forall>j<length (local_names (funs ! i)).
                   map_at (rebuildLocals (funs ! i)) (local_names (funs ! i) ! j) = Inr j)))"
proof -
  from assms obtain result where
    ce: "codeEntries bt funs (lebEncode (of_nat (length funs))) = Inr (result, bt')"
    and cs: "cs = section_frame 0x0a result"
    by (auto simp: codeSection_def bindE_eq_Inr section_frame_prefixSize [symmetric]
             simp del: append.simps)
  from codeEntries_Inr [OF ce] cs show ?thesis
    using rebuildLocals_nth by blast
qed

theorem code_section_entries_witness:
  "codeSection example_state [example_main]
     = Inr (example_code, example_state\<lparr>m_locals := [(''x'', 0), (''y'', 1)]\<rparr>)
   \<and> (\<exists>bodies. length bodies = length [example_main]
     \<and> example_code = section_frame 0x0a
              (lebEncode (of_nat (length [example_main]))
                 @ concat (map2 function_entry [example_main] bodies))
     \<and> (\<forall>i<length [example_main].
           visit (example_state\<lparr>m_locals := rebuildLocals ([example_main] ! i)\<rparr>)
               (body ([example_main] ! i))
             = Inr (bodies ! i)
           \<and> (distinct (local_names ([example_main] ! i)) \<longrightarrow>
                (\<forall>j<length (local_names ([example_main] ! i)).
                   map_at (rebuildLocals ([example_main] ! i))
                     (local_names ([example_main] ! i) ! j) = Inr j))))
   \<and> distinct (local_names example_main)
   \<and> local_names example_main = [''x'', ''y'']"
proof -
  have h: "codeSection example_state [example_main]
     = Inr (example_code, example_state\<lparr>m_locals := [(''x'', 0), (''y'', 1)]\<rparr>)"
    by code_simp
  have d: "local_names example_main = [''x'', ''y'']"
    by (simp add: local_names_def example_main_def)
  from code_section_entries [OF h] h d show ?thesis by simp
qed

section \<open>Sections and their order\<close>

lemma typeSection_Inr:
  assumes "typeSection bt imps funs = Inr (ts, bt')"
  shows "\<exists>types0 types ft result index.
      collectImports [] imps = Inr types0 \<and> collectFunctions types0 funs = Inr types
      \<and> emitTypes (m_functionTypes bt) types 0 [] = (ft, result, index)
      \<and> ts = section_frame 0x01 (lebEncode (of_nat index) @ result)
      \<and> bt' = bt\<lparr>m_functionTypes := ft\<rparr>"
proof -
  from assms obtain types0 types where
    c: "collectImports [] imps = Inr types0" "collectFunctions types0 funs = Inr types" and
    e: "(case emitTypes (m_functionTypes bt) types 0 [] of (ft, result, index) \<Rightarrow>
            Inr ([0x01] @ prefixSize (lebEncode (of_nat index) @ result),
                 bt\<lparr>m_functionTypes := ft\<rparr>)) = (Inr (ts, bt') :: error + _)"
    by (auto simp: typeSection_def bindE_eq_Inr simp del: append.simps)
  obtain ft result index where
    em: "emitTypes (m_functionTypes bt) types 0 [] = (ft, result, index)"
    by (cases "emitTypes (m_functionTypes bt) types 0 []") auto
  from e have "ts = section_frame 0x01 (lebEncode (of_nat index) @ result)
      \<and> bt' = bt\<lparr>m_functionTypes := ft\<rparr>"
    unfolding em section_frame_prefixSize by auto
  with c em show ?thesis by blast
qed

lemma typeSection_frame:
  "typeSection bt imps funs = Inr (ts, bt') \<Longrightarrow>
   \<exists>p ft. ts = section_frame 0x01 p \<and> bt' = bt\<lparr>m_functionTypes := ft\<rparr>"
  using typeSection_Inr by blast

lemma importSection_frame:
  "importSection bt imps = (isec, bt') \<Longrightarrow>
   \<exists>p ft. isec = section_frame 0x02 p \<and> bt' = bt\<lparr>m_functionTypes := ft\<rparr>"
proof -
  assume a: "importSection bt imps = (isec, bt')"
  obtain result ft where
    r: "importEntries (m_functionTypes bt) imps (lebEncode (of_nat (length imps))) = (result, ft)"
    by (cases "importEntries (m_functionTypes bt) imps (lebEncode (of_nat (length imps)))")
  from a have "isec = section_frame 0x02 result \<and> bt' = bt\<lparr>m_functionTypes := ft\<rparr>"
    by (simp only: importSection_def r section_frame_prefixSize) auto
  then show ?thesis by blast
qed

lemma functionSection_frame:
  "functionSection bt funs = Inr fs \<Longrightarrow> \<exists>p. fs = section_frame 0x03 p"
  by (auto simp: functionSection_def bindE_eq_Inr section_frame_prefixSize [symmetric]
           simp del: append.simps)

lemma memorySection_frame: "memorySection = section_frame 0x05 [1, 0, 1]"
  by (simp add: memorySection_def lebEncode_1 section_frame_def prefixSize_def)

lemma globalSection_frame: "\<exists>p. globalSection bt = section_frame 0x06 p"
  by (auto simp: globalSection_def section_frame_prefixSize [symmetric] simp del: append.simps)

lemma exportSection_frame:
  "exportSection bt = Inr es \<Longrightarrow> \<exists>p. es = section_frame 0x07 p"
  by (auto simp: exportSection_def bindE_eq_Inr section_frame_prefixSize [symmetric]
           simp del: append.simps)

lemma customSection_frame: "customSection nm data = section_frame 0x00 (encode nm @ data)"
  by (simp add: customSection_def section_frame_def prefixSize_def)

lemma codeSection_frame:
  "codeSection bt funs = Inr (cs, bt') \<Longrightarrow> \<exists>p. cs = section_frame 0x0a p"
  by (auto simp: codeSection_def bindE_eq_Inr section_frame_prefixSize [symmetric]
           simp del: append.simps)

lemma embedSubModules_Inr:
  "embedSubModules bt ret subs = Inr (ret', bt') \<Longrightarrow>
   \<exists>datas. map snd subs = map Inr datas
     \<and> ret' = ret @ concat (map2 customSection (map fst subs) datas)
     \<and> (\<exists>ps. bt' = bt\<lparr>m_subModulePosAndSize := ps\<rparr>)"
proof (induction subs arbitrary: bt ret)
  case Nil
  then show ?case by (auto intro: exI [of _ "m_subModulePosAndSize bt"])
next
  case (Cons a subs)
  obtain nm r where a: "a = (nm, r)" by (cases a)
  from Cons.prems a obtain data where r: "r = Inr data" and
    rest: "embedSubModules
             (bt\<lparr>m_subModulePosAndSize :=
                   map_assign (m_subModulePosAndSize bt) nm
                     (length (ret @ customSection nm data) - length data, length data)\<rparr>)
             (ret @ customSection nm data) subs = Inr (ret', bt')"
    by (auto simp: bindE_eq_Inr Let_def)
  from Cons.IH [OF rest] obtain datas ps where
    d: "map snd subs = map Inr datas"
       "ret' = (ret @ customSection nm data) @ concat (map2 customSection (map fst subs) datas)"
       "bt' = bt\<lparr>m_subModulePosAndSize := ps\<rparr>"
    by auto
  have "map snd (a # subs) = map Inr (data # datas)" using a r d(1) by simp
  moreover have "ret' = ret @ concat (map2 customSection (map fst (a # subs)) (data # datas))"
    using a d(2) by simp
  ultimately show ?case using d(3) by blast
qed

lemma sections_Inr:
  assumes "sections gs imps funs subs = Inr (ret, bt)"
  shows "\<exists>tp ip fp gp ep datas.
     map snd subs = map Inr datas
     \<and> ret = [0x00, 0x61, 0x73, 0x6D, 0x01, 0x00, 0x00, 0x00]
         @ section_frame 0x01 tp @ section_frame 0x02 ip @ section_frame 0x03 fp
         @ section_frame 0x05 [1, 0, 1] @ section_frame 0x06 gp @ section_frame 0x07 ep
         @ concat (map2 (\<lambda>nm data. section_frame 0x00 (encode nm @ data)) (map fst subs) datas)"
proof -
  from assms obtain ts bt1 where
    t: "typeSection (resolver gs imps funs) imps funs = Inr (ts, bt1)" and
    r1: "(case importSection bt1 imps of (isec, bt2) \<Rightarrow>
           bindE (functionSection bt2 funs) (\<lambda>fs.
           bindE (exportSection bt2) (\<lambda>es.
             embedSubModules bt2
               ([0, 0x61, 0x73, 0x6d] @ [1, 0, 0, 0] @ ts @ isec @ fs @ memorySection
                  @ globalSection bt2 @ es)
               subs))) = Inr (ret, bt)"
    by (auto simp: sections_def bindE_eq_Inr simp del: append.simps)
  obtain isec bt2 where i: "importSection bt1 imps = (isec, bt2)"
    by (cases "importSection bt1 imps")
  from r1 obtain fs es where
    f: "functionSection bt2 funs = Inr fs" and
    e: "exportSection bt2 = Inr es" and
    s: "embedSubModules bt2
          ([0, 0x61, 0x73, 0x6d] @ [1, 0, 0, 0] @ ts @ isec @ fs @ memorySection
             @ globalSection bt2 @ es) subs = Inr (ret, bt)"
    unfolding i by (auto simp: bindE_eq_Inr simp del: append.simps)
  obtain tp where tp: "ts = section_frame 0x01 tp" using typeSection_frame [OF t] by blast
  obtain ip where ip: "isec = section_frame 0x02 ip" using importSection_frame [OF i] by blast
  obtain fp where fp: "fs = section_frame 0x03 fp" using functionSection_frame [OF f] by blast
  obtain gp where gp: "globalSection bt2 = section_frame 0x06 gp"
    using globalSection_frame [of bt2] by blast
  obtain ep where ep: "es = section_frame 0x07 ep" using exportSection_frame [OF e] by blast
  from embedSubModules_Inr [OF s] obtain datas where
    d: "map snd subs = map Inr datas"
       "ret = ([0, 0x61, 0x73, 0x6d] @ [1, 0, 0, 0] @ ts @ isec @ fs @ memorySection
             @ globalSection bt2 @ es) @ concat (map2 customSection (map fst subs) datas)"
    by blast
  have c: "customSection = (\<lambda>nm data. section_frame 0x00 (encode nm @ data))"
    by (intro ext) (rule customSection_frame)
  have "ret = [0x00, 0x61, 0x73, 0x6D, 0x01, 0x00, 0x00, 0x00]
         @ section_frame 0x01 tp @ section_frame 0x02 ip @ section_frame 0x03 fp
         @ section_frame 0x05 [1, 0, 1] @ section_frame 0x06 gp @ section_frame 0x07 ep
         @ concat (map2 (\<lambda>nm data. section_frame 0x00 (encode nm @ data)) (map fst subs) datas)"
    unfolding d(2) tp ip fp gp ep memorySection_frame c by simp
  with d(1) show ?thesis by blast
qed

text \<open>
  Claim C3. When \<open>run\<close> returns a byte vector, it is the magic \<open>00 61 73 6D\<close> and the
  version \<open>01 00 00 00\<close> followed by the Type (1), Import (2), Function (3), Memory (5),
  Global (6) and Export (7) sections, one Custom section (0) for each entry of
  \<^verbatim>\<open>subModules\<close> in its order, holding the name and the encoding of the sub-module, and the
  Code section (10), and nothing else. Each section is its id, the LEB128 of the length of
  its payload and the payload.
\<close>

theorem run_layout:
  assumes "run m = Inr out"
  shows "\<exists>tp ip fp gp ep cp datas.
     map (\<lambda>(nm, sub). run sub) (subModules m) = map Inr datas
     \<and> out = [0x00, 0x61, 0x73, 0x6D, 0x01, 0x00, 0x00, 0x00]
         @ section_frame 0x01 tp @ section_frame 0x02 ip @ section_frame 0x03 fp
         @ section_frame 0x05 [1, 0, 1] @ section_frame 0x06 gp @ section_frame 0x07 ep
         @ concat (map2 (\<lambda>nm data. section_frame 0x00 (encode nm @ data))
                     (map fst (subModules m)) datas)
         @ section_frame 0x0A cp"
proof (cases m)
  case (Module gs imps funs subs)
  let ?subs = "map (\<lambda>(nm, sub). (nm, run sub)) subs"
  from assms Module obtain ret bt cs bt' where
    s: "sections gs imps funs ?subs = Inr (ret, bt)" and
    c: "codeSection bt funs = Inr (cs, bt')" and
    o: "out = ret @ cs"
    by (auto simp: bindE_eq_Inr)
  obtain cp where cp: "cs = section_frame 0x0A cp" using codeSection_frame [OF c] by blast
  have 1: "map snd ?subs = map (\<lambda>(nm, sub). run sub) subs" by (simp add: case_prod_unfold)
  have 2: "map fst ?subs = map fst subs" by (simp add: case_prod_unfold)
  have sm: "subModules m = subs" using Module by simp
  from sections_Inr [OF s] obtain tp ip fp gp ep datas where
    d: "map snd ?subs = map Inr datas" and
    r: "ret = [0x00, 0x61, 0x73, 0x6D, 0x01, 0x00, 0x00, 0x00]
         @ section_frame 0x01 tp @ section_frame 0x02 ip @ section_frame 0x03 fp
         @ section_frame 0x05 [1, 0, 1] @ section_frame 0x06 gp @ section_frame 0x07 ep
         @ concat (map2 (\<lambda>nm data. section_frame 0x00 (encode nm @ data))
                     (map fst ?subs) datas)"
    by blast
  have "out = [0x00, 0x61, 0x73, 0x6D, 0x01, 0x00, 0x00, 0x00]
         @ section_frame 0x01 tp @ section_frame 0x02 ip @ section_frame 0x03 fp
         @ section_frame 0x05 [1, 0, 1] @ section_frame 0x06 gp @ section_frame 0x07 ep
         @ concat (map2 (\<lambda>nm data. section_frame 0x00 (encode nm @ data))
                     (map fst subs) datas)
         @ section_frame 0x0A cp"
    unfolding o r cp 2 by simp
  moreover have "map (\<lambda>(nm, sub). run sub) subs = map Inr datas"
    using d unfolding 1 .
  ultimately show ?thesis unfolding sm by blast
qed

theorem run_layout_witness:
  "run example_module = Inr example_module_bytes
   \<and> (\<exists>tp ip fp gp ep cp datas.
     map (\<lambda>(nm, sub). run sub) (subModules example_module) = map Inr datas
     \<and> example_module_bytes = [0x00, 0x61, 0x73, 0x6D, 0x01, 0x00, 0x00, 0x00]
         @ section_frame 0x01 tp @ section_frame 0x02 ip @ section_frame 0x03 fp
         @ section_frame 0x05 [1, 0, 1] @ section_frame 0x06 gp @ section_frame 0x07 ep
         @ concat (map2 (\<lambda>nm data. section_frame 0x00 (encode nm @ data))
                     (map fst (subModules example_module)) datas)
         @ section_frame 0x0A cp)"
proof -
  have h: "run example_module = Inr example_module_bytes" by code_simp
  from run_layout [OF h] h show ?thesis by blast
qed


section \<open>Embedded sub-modules\<close>

lemma embedSubModules_other:
  "embedSubModules bt ret subs = Inr (ret', bt') \<Longrightarrow> X \<notin> fst ` set subs \<Longrightarrow>
   map_of (m_subModulePosAndSize bt') X = map_of (m_subModulePosAndSize bt) X"
proof (induction subs arbitrary: bt ret)
  case Nil
  then show ?case by simp
next
  case (Cons a subs)
  obtain nm r where a: "a = (nm, r)" by (cases a)
  from Cons.prems(1) a obtain data where r: "r = Inr data" and
    rest: "embedSubModules
             (bt\<lparr>m_subModulePosAndSize :=
                   map_assign (m_subModulePosAndSize bt) nm
                     (length (ret @ customSection nm data) - length data, length data)\<rparr>)
             (ret @ customSection nm data) subs = Inr (ret', bt')"
    by (auto simp: bindE_eq_Inr Let_def)
  from Cons.prems(2) a have "X \<noteq> nm" "X \<notin> fst ` set subs" by auto
  with Cons.IH [OF rest] show ?case by (simp add: map_of_map_assign)
qed

lemma customSection_data:
  "customSection nm data =
     ([0x00] @ lebEncode (of_nat (length (encode nm @ data))) @ encode nm) @ data"
  by (simp add: customSection_def prefixSize_def)

lemma embedSubModules_position:
  "embedSubModules bt ret subs = Inr (ret', bt') \<Longrightarrow> distinct (map fst subs) \<Longrightarrow>
   (X, r) \<in> set subs \<Longrightarrow>
   \<exists>data p pre. r = Inr data
     \<and> map_of (m_subModulePosAndSize bt') X = Some (p, length data)
     \<and> take p ret' = pre @ [0x00] @ lebEncode (of_nat (length (encode X @ data))) @ encode X
     \<and> take (length data) (drop p ret') = data
     \<and> p + length data \<le> length ret'"
proof (induction subs arbitrary: bt ret)
  case Nil
  then show ?case by simp
next
  case (Cons a subs)
  obtain nm r0 where a: "a = (nm, r0)" by (cases a)
  from Cons.prems(1) a obtain data where r0: "r0 = Inr data" and
    rest: "embedSubModules
             (bt\<lparr>m_subModulePosAndSize :=
                   map_assign (m_subModulePosAndSize bt) nm
                     (length (ret @ customSection nm data) - length data, length data)\<rparr>)
             (ret @ customSection nm data) subs = Inr (ret', bt')"
    by (auto simp: bindE_eq_Inr Let_def)
  from Cons.prems(2) a have dist: "nm \<notin> fst ` set subs" "distinct (map fst subs)" by auto
  show ?case
  proof (cases "X = nm")
    case True
    with Cons.prems(3) a dist(1) have r: "r = Inr data"
      using r0 by (auto simp: image_iff) 
    define pre where "pre = ret"
    define hdr where "hdr = [0x00] @ lebEncode (of_nat (length (encode nm @ data))) @ encode nm"
    define p where "p = length (ret @ customSection nm data) - length data"
    have cs: "customSection nm data = hdr @ data"
      unfolding hdr_def by (rule customSection_data)
    have p: "p = length (pre @ hdr)" by (simp add: p_def cs pre_def)
    from embedSubModules_Inr [OF rest] obtain more where
      ret': "ret' = (pre @ hdr) @ data @ more"
      by (auto simp: cs pre_def)
    have "map_of (m_subModulePosAndSize bt') X = Some (p, length data)"
      using embedSubModules_other [OF rest dist(1)] True
      by (simp add: map_of_map_assign p_def)
    moreover have "take p ret' = pre @ hdr" unfolding ret' p by simp
    moreover have "take (length data) (drop p ret') = data" unfolding ret' p by simp
    moreover have "p + length data \<le> length ret'" unfolding ret' p by simp
    ultimately show ?thesis using r True unfolding hdr_def by auto
  next
    case False
    with Cons.prems(3) a have "(X, r) \<in> set subs" by auto
    from Cons.IH [OF rest dist(2) this] show ?thesis .
  qed
qed


lemma sections_embed:
  assumes "sections gs imps funs subs = Inr (ret, bt)"
  shows "\<exists>bt2 ret0. embedSubModules bt2 ret0 subs = Inr (ret, bt)"
proof -
  from assms obtain ts bt1 where
    r1: "(case importSection bt1 imps of (isec, bt2) \<Rightarrow>
           bindE (functionSection bt2 funs) (\<lambda>fs.
           bindE (exportSection bt2) (\<lambda>es.
             embedSubModules bt2
               ([0, 0x61, 0x73, 0x6d] @ [1, 0, 0, 0] @ ts @ isec @ fs @ memorySection
                  @ globalSection bt2 @ es)
               subs))) = Inr (ret, bt)"
    by (auto simp: sections_def bindE_eq_Inr simp del: append.simps)
  obtain isec bt2 where i: "importSection bt1 imps = (isec, bt2)"
    by (cases "importSection bt1 imps")
  from r1 show ?thesis
    unfolding i by (auto simp: bindE_eq_Inr simp del: append.simps)
qed

lemma dataoffset_lowering:
  "map_of (m_subModulePosAndSize bt) X = Some (p, n) \<Longrightarrow>
   apply_visitor bt (BuiltinCall ''dataoffset'' [StringLiteral X])
     = Inr (0x42 # lebEncodeSigned (of_nat p))"
  by (simp add: builtin_call_dataoffset vector_at_def get_StringLiteral_def map_at_def
        opcode_def)

lemma datasize_lowering:
  "map_of (m_subModulePosAndSize bt) X = Some (p, n) \<Longrightarrow>
   apply_visitor bt (BuiltinCall ''datasize'' [StringLiteral X])
     = Inr (0x42 # lebEncodeSigned (of_nat n))"
  by (simp add: builtin_call_datasize vector_at_def get_StringLiteral_def map_at_def
        opcode_def)

lemma sint_of_nat64: "p < 2 ^ 63 \<Longrightarrow> sint (of_nat p :: 64 word) = int p"
  by (simp add: signed_of_nat signed_take_bit_int_eq_self)

lemma lebDecodeSigned_of_nat:
  "p < 2 ^ 63 \<Longrightarrow> lebDecodeSigned (lebEncodeSigned (of_nat p)) = Some (int p, [])"
  using lebDecodeSigned_nonneg [of "of_nat p" "[]"] by (simp add: sint_of_nat64)

text \<open>
  Claim C2. Let \<open>run\<close> succeed on a module whose \<^verbatim>\<open>subModules\<close> (a map: the names are
  distinct) has the entry \<open>(X, sub)\<close>, and let \<open>data\<close> be the encoding of \<open>sub\<close>. Then there
  is a position \<open>p\<close> in the output such that the \<open>length data\<close> bytes from \<open>p\<close> on are
  \<open>data\<close> and the bytes before \<open>p\<close> end with the header of the custom section of \<open>X\<close>: the
  id \<open>0x00\<close>, the length prefix and the name. In the state in which the Code section is
  emitted (whatever the locals and the label stack are), \<open>dataoffset("X")\<close> is lowered to
  \<open>0x42\<close> followed by \<open>lebEncodeSigned p\<close> and \<open>datasize("X")\<close> to \<open>0x42\<close> followed by
  \<open>lebEncodeSigned (length data)\<close>, and for these non-negative values (below \<open>2 ^ 63\<close>) that
  is their signed LEB128 encoding.
\<close>

theorem dataoffset_datasize_position:
  assumes "run m = Inr out"
    and "distinct (map fst (subModules m))"
    and "(X, sub) \<in> set (subModules m)"
  shows "\<exists>data p pre ret bt cs bt'.
      run sub = Inr data
    \<and> sections (globals m) (imports_m m) (functions_m m)
          (map (\<lambda>(nm, s). (nm, run s)) (subModules m)) = Inr (ret, bt)
    \<and> codeSection bt (functions_m m) = Inr (cs, bt')
    \<and> out = ret @ cs
    \<and> take p out = pre @ [0x00] @ lebEncode (of_nat (length (encode X @ data))) @ encode X
    \<and> take (length data) (drop p out) = data
    \<and> (\<forall>ls lbls.
          apply_visitor (bt\<lparr>m_locals := ls, m_labels := lbls\<rparr>)
              (BuiltinCall ''dataoffset'' [StringLiteral X])
            = Inr (0x42 # lebEncodeSigned (of_nat p))
        \<and> apply_visitor (bt\<lparr>m_locals := ls, m_labels := lbls\<rparr>)
              (BuiltinCall ''datasize'' [StringLiteral X])
            = Inr (0x42 # lebEncodeSigned (of_nat (length data))))
    \<and> (p < 2 ^ 63 \<longrightarrow> lebDecodeSigned (lebEncodeSigned (of_nat p)) = Some (int p, []))
    \<and> (length data < 2 ^ 63 \<longrightarrow>
          lebDecodeSigned (lebEncodeSigned (of_nat (length data)))
            = Some (int (length data), []))"
proof (cases m)
  case (Module gs imps funs subs)
  let ?subs = "map (\<lambda>(nm, s). (nm, run s)) subs"
  from assms(1) Module obtain ret bt cs bt' where
    s: "sections gs imps funs ?subs = Inr (ret, bt)" and
    c: "codeSection bt funs = Inr (cs, bt')" and
    o: "out = ret @ cs"
    by (auto simp: bindE_eq_Inr)
  from sections_embed [OF s] obtain bt2 ret0 where
    e: "embedSubModules bt2 ret0 ?subs = Inr (ret, bt)" by blast
  have d: "distinct (map fst ?subs)"
    using assms(2) Module by (simp add: case_prod_unfold o_def)
  have x: "(X, run sub) \<in> set ?subs"
    using assms(3) Module by force
  from embedSubModules_position [OF e d x] obtain data p pre where
    r: "run sub = Inr data" and
    ps: "map_of (m_subModulePosAndSize bt) X = Some (p, length data)" and
    t: "take p ret = pre @ [0x00] @ lebEncode (of_nat (length (encode X @ data))) @ encode X" and
    dd: "take (length data) (drop p ret) = data" and
    le: "p + length data \<le> length ret"
    by blast
  have t': "take p out = pre @ [0x00] @ lebEncode (of_nat (length (encode X @ data))) @ encode X"
    using t le unfolding o by simp
  have dd': "take (length data) (drop p out) = data"
    using dd le unfolding o by simp
  have lw: "apply_visitor (bt\<lparr>m_locals := ls, m_labels := lbls\<rparr>)
              (BuiltinCall ''dataoffset'' [StringLiteral X])
            = Inr (0x42 # lebEncodeSigned (of_nat p))
        \<and> apply_visitor (bt\<lparr>m_locals := ls, m_labels := lbls\<rparr>)
              (BuiltinCall ''datasize'' [StringLiteral X])
            = Inr (0x42 # lebEncodeSigned (of_nat (length data)))" for ls lbls
    using ps by (simp add: dataoffset_lowering datasize_lowering)
  have m: "globals m = gs" "imports_m m = imps" "functions_m m = funs" "subModules m = subs"
    using Module by simp_all
  show ?thesis
    unfolding m using r s c o t' dd' lw lebDecodeSigned_of_nat by blast
qed

theorem dataoffset_datasize_position_witness:
  "run example_module = Inr example_module_bytes
   \<and> distinct (map fst (subModules example_module))
   \<and> (''s'', example_sub) \<in> set (subModules example_module)
   \<and> (\<exists>data p pre ret bt cs bt'.
      run example_sub = Inr data
    \<and> sections (globals example_module) (imports_m example_module) (functions_m example_module)
          (map (\<lambda>(nm, s). (nm, run s)) (subModules example_module)) = Inr (ret, bt)
    \<and> codeSection bt (functions_m example_module) = Inr (cs, bt')
    \<and> example_module_bytes = ret @ cs
    \<and> take p example_module_bytes
         = pre @ [0x00] @ lebEncode (of_nat (length (encode ''s'' @ data))) @ encode ''s''
    \<and> take (length data) (drop p example_module_bytes) = data
    \<and> (\<forall>ls lbls.
          apply_visitor (bt\<lparr>m_locals := ls, m_labels := lbls\<rparr>)
              (BuiltinCall ''dataoffset'' [StringLiteral ''s''])
            = Inr (0x42 # lebEncodeSigned (of_nat p))
        \<and> apply_visitor (bt\<lparr>m_locals := ls, m_labels := lbls\<rparr>)
              (BuiltinCall ''datasize'' [StringLiteral ''s''])
            = Inr (0x42 # lebEncodeSigned (of_nat (length data))))
    \<and> (p < 2 ^ 63 \<longrightarrow> lebDecodeSigned (lebEncodeSigned (of_nat p)) = Some (int p, []))
    \<and> (length data < 2 ^ 63 \<longrightarrow>
          lebDecodeSigned (lebEncodeSigned (of_nat (length data)))
            = Some (int (length data), [])))"
proof -
  have h: "run example_module = Inr example_module_bytes" by code_simp
  have d: "distinct (map fst (subModules example_module))"
    by (simp add: example_module_def)
  have x: "(''s'', example_sub) \<in> set (subModules example_module)"
    by (simp add: example_module_def)
  from dataoffset_datasize_position [OF h d x] h d x show ?thesis by blast
qed

section \<open>The Type section\<close>

lemma bytes_less_irrefl: "\<not> bytes_less a a"
  by (induction a) simp_all

lemma bytes_less_trans: "bytes_less a b \<Longrightarrow> bytes_less b c \<Longrightarrow> bytes_less a c"
proof (induction a b arbitrary: c rule: bytes_less.induct)
  case 1
  then show ?case by simp
next
  case (2 y ys)
  then show ?case by (cases c) simp_all
next
  case (3 x xs)
  then show ?case by simp
next
  case (4 x xs y ys)
  then show ?case by (cases c) (auto simp: not_less)
qed

lemma bytes_less_total: "\<not> bytes_less a b \<Longrightarrow> \<not> bytes_less b a \<Longrightarrow> a = b"
  by (induction a b rule: bytes_less.induct) (auto simp: not_less)

lemma bytes_less_asym: "bytes_less a b \<Longrightarrow> \<not> bytes_less b a"
  using bytes_less_irrefl bytes_less_trans by blast

lemma Type_less_alt:
  "Type_less p q =
     (bytes_less (fst p) (fst q) \<or> (fst p = fst q \<and> bytes_less (snd p) (snd q)))"
  unfolding Type_less_def
  using bytes_less_total [of "fst p" "fst q"] bytes_less_irrefl [of "fst p"]
    bytes_less_asym [of "fst p" "fst q"]
  by auto

lemma Type_less_irrefl: "\<not> Type_less p p"
  by (simp add: Type_less_alt bytes_less_irrefl)

lemma Type_less_trans: "Type_less p q \<Longrightarrow> Type_less q r \<Longrightarrow> Type_less p r"
  unfolding Type_less_alt
  using bytes_less_trans [of "fst p" "fst q" "fst r"] bytes_less_trans [of "snd p" "snd q" "snd r"]
  by auto

lemma Type_less_total: "\<not> Type_less p q \<Longrightarrow> \<not> Type_less q p \<Longrightarrow> p = q"
  unfolding Type_less_alt
  using bytes_less_total [of "fst p" "fst q"] bytes_less_total [of "snd p" "snd q"]
  by (auto intro: prod_eqI)

lemma sorted_wrt_Type_less_distinct: "sorted_wrt Type_less ks \<Longrightarrow> distinct ks"
  by (induction ks) (auto simp: Type_less_irrefl)

lemma pairs_of_simps [simp]:
  "pairs_of [] = {}"
  "pairs_of ((k, nms) # m) = (\<lambda>nm. (k, nm)) ` set nms \<union> pairs_of m"
  by (auto simp: pairs_of_def)

lemma names_of_simps [simp]:
  "names_of [] = []"
  "names_of ((k, nms) # m) = nms @ names_of m"
  by (simp_all add: names_of_def)

lemma types_emplace_keys:
  "set (map fst (types_emplace m k nm)) = insert k (set (map fst m))"
  by (induction m k nm rule: types_emplace.induct)
     (auto dest: Type_less_total)

lemma types_emplace_sorted:
  "sorted_wrt Type_less (map fst m) \<Longrightarrow> sorted_wrt Type_less (map fst (types_emplace m k nm))"
proof (induction m k nm rule: types_emplace.induct)
  case (1 k nm)
  then show ?case by simp
next
  case (2 k' nms m k nm)
  show ?case
  proof (cases "Type_less k k'")
    case True
    then show ?thesis using 2(2) by (auto intro: Type_less_trans)
  next
    case False
    show ?thesis
    proof (cases "Type_less k' k")
      case True
      have "\<forall>x\<in>set (map fst (types_emplace m k nm)). Type_less k' x"
        unfolding types_emplace_keys using True 2(2) by auto
      then show ?thesis using False True 2 by simp
    next
      case F: False
      then show ?thesis using False 2(2) by simp
    qed
  qed
qed

lemma types_emplace_pairs:
  "pairs_of (types_emplace m k nm) = insert (k, nm) (pairs_of m)"
  by (induction m k nm rule: types_emplace.induct)
     (auto dest: Type_less_total)

lemma types_emplace_names_set:
  "set (names_of (types_emplace m k nm)) = insert nm (set (names_of m))"
  by (induction m k nm rule: types_emplace.induct) auto

lemma types_emplace_names_distinct:
  "distinct (names_of m) \<Longrightarrow> nm \<notin> set (names_of m) \<Longrightarrow>
   distinct (names_of (types_emplace m k nm))"
  by (induction m k nm rule: types_emplace.induct) (auto simp: types_emplace_names_set)

lemma collectImports_Inr:
  "collectImports m imps = Inr r \<Longrightarrow>
   \<exists>ts. map typeOf_import imps = map Inr ts
     \<and> set (map fst r) = set (map fst m) \<union> set ts
     \<and> pairs_of r = pairs_of m \<union> set (zip ts (map internalName imps))
     \<and> set (names_of r) = set (names_of m) \<union> set (map internalName imps)
     \<and> (sorted_wrt Type_less (map fst m) \<longrightarrow> sorted_wrt Type_less (map fst r))
     \<and> (distinct (names_of m @ map internalName imps) \<longrightarrow> distinct (names_of r))"
proof (induction imps arbitrary: m)
  case Nil
  then show ?case by simp
next
  case (Cons imp imps)
  from Cons.prems obtain t where
    t: "typeOf_import imp = Inr t" and
    rest: "collectImports (types_emplace m t (internalName imp)) imps = Inr r"
    by (auto simp: bindE_eq_Inr)
  let ?m1 = "types_emplace m t (internalName imp)"
  from Cons.IH [OF rest] obtain ts where
    ih: "map typeOf_import imps = map Inr ts"
        "set (map fst r) = set (map fst ?m1) \<union> set ts"
        "pairs_of r = pairs_of ?m1 \<union> set (zip ts (map internalName imps))"
        "set (names_of r) = set (names_of ?m1) \<union> set (map internalName imps)"
        "sorted_wrt Type_less (map fst ?m1) \<longrightarrow> sorted_wrt Type_less (map fst r)"
        "distinct (names_of ?m1 @ map internalName imps) \<longrightarrow> distinct (names_of r)"
    by blast
  have 1: "map typeOf_import (imp # imps) = map Inr (t # ts)" using t ih(1) by simp
  have 2: "set (map fst r) = set (map fst m) \<union> set (t # ts)"
    using ih(2) unfolding types_emplace_keys by auto
  have 3: "pairs_of r = pairs_of m \<union> set (zip (t # ts) (map internalName (imp # imps)))"
    using ih(3) unfolding types_emplace_pairs by auto
  have 4: "set (names_of r) = set (names_of m) \<union> set (map internalName (imp # imps))"
    using ih(4) unfolding types_emplace_names_set by auto
  have 5: "sorted_wrt Type_less (map fst m) \<longrightarrow> sorted_wrt Type_less (map fst r)"
    using ih(5) types_emplace_sorted by blast
  have 6: "distinct (names_of m @ map internalName (imp # imps)) \<longrightarrow> distinct (names_of r)"
  proof
    assume d: "distinct (names_of m @ map internalName (imp # imps))"
    then have "distinct (names_of ?m1)"
      by (intro types_emplace_names_distinct) auto
    moreover have "distinct (map internalName imps)" using d by simp
    moreover have "set (names_of ?m1) \<inter> set (map internalName imps) = {}"
      unfolding types_emplace_names_set using d by auto
    ultimately show "distinct (names_of r)" using ih(6) by simp
  qed
  from 1 2 3 4 5 6 show ?case by blast
qed

lemma collectFunctions_Inr:
  "collectFunctions m funs = Inr r \<Longrightarrow>
   \<exists>ts. map typeOf_def funs = map Inr ts
     \<and> set (map fst r) = set (map fst m) \<union> set ts
     \<and> pairs_of r = pairs_of m \<union> set (zip ts (map name funs))
     \<and> set (names_of r) = set (names_of m) \<union> set (map name funs)
     \<and> (sorted_wrt Type_less (map fst m) \<longrightarrow> sorted_wrt Type_less (map fst r))
     \<and> (distinct (names_of m @ map name funs) \<longrightarrow> distinct (names_of r))"
proof (induction funs arbitrary: m)
  case Nil
  then show ?case by simp
next
  case (Cons f funs)
  from Cons.prems obtain t where
    t: "typeOf_def f = Inr t" and
    rest: "collectFunctions (types_emplace m t (name f)) funs = Inr r"
    by (auto simp: bindE_eq_Inr)
  let ?m1 = "types_emplace m t (name f)"
  from Cons.IH [OF rest] obtain ts where
    ih: "map typeOf_def funs = map Inr ts"
        "set (map fst r) = set (map fst ?m1) \<union> set ts"
        "pairs_of r = pairs_of ?m1 \<union> set (zip ts (map name funs))"
        "set (names_of r) = set (names_of ?m1) \<union> set (map name funs)"
        "sorted_wrt Type_less (map fst ?m1) \<longrightarrow> sorted_wrt Type_less (map fst r)"
        "distinct (names_of ?m1 @ map name funs) \<longrightarrow> distinct (names_of r)"
    by blast
  have 1: "map typeOf_def (f # funs) = map Inr (t # ts)" using t ih(1) by simp
  have 2: "set (map fst r) = set (map fst m) \<union> set (t # ts)"
    using ih(2) unfolding types_emplace_keys by auto
  have 3: "pairs_of r = pairs_of m \<union> set (zip (t # ts) (map name (f # funs)))"
    using ih(3) unfolding types_emplace_pairs by auto
  have 4: "set (names_of r) = set (names_of m) \<union> set (map name (f # funs))"
    using ih(4) unfolding types_emplace_names_set by auto
  have 5: "sorted_wrt Type_less (map fst m) \<longrightarrow> sorted_wrt Type_less (map fst r)"
    using ih(5) types_emplace_sorted by blast
  have 6: "distinct (names_of m @ map name (f # funs)) \<longrightarrow> distinct (names_of r)"
  proof
    assume d: "distinct (names_of m @ map name (f # funs))"
    then have "distinct (names_of ?m1)"
      by (intro types_emplace_names_distinct) auto
    moreover have "distinct (map name funs)" using d by simp
    moreover have "set (names_of ?m1) \<inter> set (map name funs) = {}"
      unfolding types_emplace_names_set using d by auto
    ultimately show "distinct (names_of r)" using ih(6) by simp
  qed
  from 1 2 3 4 5 6 show ?case by blast
qed

lemma assignNames_map_of:
  "map_of (assignNames ft nms index) x = (if x \<in> set nms then Some index else map_of ft x)"
  by (induction ft nms index rule: assignNames.induct) (auto simp: map_of_map_assign)

lemma emitTypes_result:
  "emitTypes ft types index result = (ft', result', index') \<Longrightarrow>
   index' = index + length types \<and> result' = result @ concat (map (type_entry \<circ> fst) types)"
proof (induction ft types index result rule: emitTypes.induct)
  case (1 ft index result)
  then show ?case by simp
next
  case (2 ft type funNames types index result)
  then show ?case by (simp add: type_entry_def)
qed

lemma emitTypes_other:
  "emitTypes ft types index result = (ft', result', index') \<Longrightarrow> x \<notin> set (names_of types) \<Longrightarrow>
   map_of ft' x = map_of ft x"
proof (induction ft types index result rule: emitTypes.induct)
  case (1 ft index result)
  then show ?case by simp
next
  case (2 ft type funNames types index result)
  then show ?case by (simp add: assignNames_map_of)
qed

lemma emitTypes_index:
  "emitTypes ft types index result = (ft', result', index') \<Longrightarrow> distinct (names_of types) \<Longrightarrow>
   i < length types \<Longrightarrow> nm \<in> set (snd (types ! i)) \<Longrightarrow>
   map_of ft' nm = Some (index + i)"
proof (induction ft types index result arbitrary: i rule: emitTypes.induct)
  case (1 ft index result)
  then show ?case by simp
next
  case (2 ft type funNames types index result)
  show ?case
  proof (cases i)
    case 0
    with 2(5) have nm: "nm \<in> set funNames" by simp
    with 2(3) have "nm \<notin> set (names_of types)" by auto
    with 2(2) have "map_of ft' nm = map_of (assignNames ft funNames index) nm"
      by (intro emitTypes_other) simp_all
    then show ?thesis using nm 0 by (simp add: assignNames_map_of)
  next
    case (Suc j)
    with 2 show ?thesis by simp
  qed
qed

lemma sig_index_nth:
  "distinct keys \<Longrightarrow> j < length keys \<Longrightarrow> sig_index keys (keys ! j) = j"
proof (induction keys arbitrary: j)
  case Nil
  then show ?case by simp
next
  case (Cons k keys)
  show ?case
  proof (cases j)
    case 0
    then show ?thesis by (simp add: sig_index_def)
  next
    case (Suc j')
    with Cons.prems have "keys ! j' \<noteq> k" by auto
    with Cons Suc show ?thesis by (simp add: sig_index_def)
  qed
qed

lemma emitTypes_lookup:
  assumes "emitTypes ft types 0 result = (ft', result', index')"
    and "distinct (names_of types)" and "distinct (map fst types)"
    and "(k, nm) \<in> pairs_of types"
  shows "map_of ft' nm = Some (sig_index (map fst types) k)
       \<and> sig_index (map fst types) k < length (map fst types)
       \<and> map fst types ! sig_index (map fst types) k = k"
proof -
  from assms(4) obtain nms where "(k, nms) \<in> set types" "nm \<in> set nms"
    by (auto simp: pairs_of_def)
  then obtain j where j: "j < length types" "types ! j = (k, nms)"
    by (auto simp: in_set_conv_nth)
  with \<open>nm \<in> set nms\<close> have "map_of ft' nm = Some (0 + j)"
    using emitTypes_index [OF assms(1,2), of j nm] by simp
  moreover have "sig_index (map fst types) k = j"
    using sig_index_nth [OF assms(3), of j] j by simp
  ultimately show ?thesis using j by simp
qed

lemma importEntries_present:
  "\<forall>imp\<in>set imps. \<exists>i. map_of ft (internalName imp) = Some i \<Longrightarrow>
   importEntries ft imps result =
     (result @ concat (map (\<lambda>imp. encode (module imp) @ encode (externalName imp) @ [0x00]
                 @ lebEncode (of_nat (the (map_of ft (internalName imp))))) imps), ft)"
  by (induction imps arbitrary: result) (auto simp: map_index_def)

lemma functionEntries_present:
  "\<forall>f\<in>set funs. \<exists>i. map_of ft (name f) = Some i \<Longrightarrow>
   functionEntries ft funs result =
     Inr (result @ concat (map (\<lambda>f. lebEncode (of_nat (the (map_of ft (name f))))) funs))"
  by (induction funs arbitrary: result) (auto simp: map_at_def)

lemma zip_nth_mem: "i < length xs \<Longrightarrow> length ys = length xs \<Longrightarrow> (xs ! i, ys ! i) \<in> set (zip xs ys)"
  by (auto simp: set_zip)

text \<open>
  Claim C5. Let \<open>typeSection\<close> succeed on imports and definitions with distinct names, and
  let \<open>its\<close> and \<open>fts\<close> be the signatures of the imports and of the definitions. Then the
  Type section is the section 1 with the number of signatures and one entry for each
  element of a list \<open>keys\<close> which holds exactly the signatures of the functions, each once, in
  strictly increasing order for \<open>Type_less\<close>. \<open>Type_less\<close> is a strict total order: the
  lexicographic order on the pair of byte sequences. \<^verbatim>\<open>m_functionTypes\<close> maps the name of
  every import and of every definition to the position of its signature in \<open>keys\<close>, and the
  Import and the Function section write that position for each function. (That equal
  modules have equal Type sections is the fact that \<open>typeSection\<close> is a function.)
\<close>

theorem type_section_signatures:
  assumes "typeSection bt imps funs = Inr (ts, bt')"
    and "distinct (map internalName imps @ map name funs)"
  shows "\<exists>keys its fts.
      map typeOf_import imps = map Inr its \<and> map typeOf_def funs = map Inr fts
    \<and> ts = section_frame 0x01 (lebEncode (of_nat (length keys)) @ concat (map type_entry keys))
    \<and> set keys = set its \<union> set fts
    \<and> distinct keys
    \<and> sorted_wrt Type_less keys
    \<and> (\<forall>i<length imps.
          map_at (m_functionTypes bt') (internalName (imps ! i)) = Inr (sig_index keys (its ! i))
          \<and> sig_index keys (its ! i) < length keys
          \<and> keys ! sig_index keys (its ! i) = its ! i)
    \<and> (\<forall>i<length funs.
          map_at (m_functionTypes bt') (name (funs ! i)) = Inr (sig_index keys (fts ! i))
          \<and> sig_index keys (fts ! i) < length keys
          \<and> keys ! sig_index keys (fts ! i) = fts ! i)
    \<and> importSection bt' imps =
         (section_frame 0x02 (lebEncode (of_nat (length imps))
            @ concat (map2 (\<lambda>imp t. encode (module imp) @ encode (externalName imp) @ [0x00]
                                @ lebEncode (of_nat (sig_index keys t))) imps its)), bt')
    \<and> functionSection bt' funs =
         Inr (section_frame 0x03 (lebEncode (of_nat (length funs))
            @ concat (map (\<lambda>t. lebEncode (of_nat (sig_index keys t))) fts)))
    \<and> (\<forall>p q r. \<not> Type_less p p \<and> (Type_less p q \<and> Type_less q r \<longrightarrow> Type_less p r)
          \<and> (Type_less p q \<or> p = q \<or> Type_less q p))
    \<and> (\<forall>p q. Type_less p q =
          (bytes_less (fst p) (fst q) \<or> fst p = fst q \<and> bytes_less (snd p) (snd q)))"
proof -
  from typeSection_Inr [OF assms(1)] obtain types0 types ft result index where
    ci: "collectImports [] imps = Inr types0" and
    cf: "collectFunctions types0 funs = Inr types" and
    em: "emitTypes (m_functionTypes bt) types 0 [] = (ft, result, index)" and
    ts: "ts = section_frame 0x01 (lebEncode (of_nat index) @ result)" and
    bt': "bt' = bt\<lparr>m_functionTypes := ft\<rparr>"
    by blast
  from collectImports_Inr [OF ci] obtain its where
    i: "map typeOf_import imps = map Inr its"
       "set (map fst types0) = set its"
       "pairs_of types0 = set (zip its (map internalName imps))"
       "set (names_of types0) = set (map internalName imps)"
       "sorted_wrt Type_less (map fst types0)"
       "distinct (map internalName imps) \<longrightarrow> distinct (names_of types0)"
    by auto
  from collectFunctions_Inr [OF cf] obtain fts where
    f: "map typeOf_def funs = map Inr fts"
       "set (map fst types) = set (map fst types0) \<union> set fts"
       "pairs_of types = pairs_of types0 \<union> set (zip fts (map name funs))"
       "sorted_wrt Type_less (map fst types0) \<longrightarrow> sorted_wrt Type_less (map fst types)"
       "distinct (names_of types0 @ map name funs) \<longrightarrow> distinct (names_of types)"
    by auto
  define keys where "keys = map fst types"
  have li: "length its = length imps" using i(1) by (metis length_map)
  have lf: "length fts = length funs" using f(1) by (metis length_map)
  have sorted: "sorted_wrt Type_less keys" using i(5) f(4) by (simp add: keys_def)
  then have dk: "distinct keys" by (rule sorted_wrt_Type_less_distinct)
  have dn: "distinct (names_of types)"
  proof -
    have "distinct (names_of types0)" using i(6) assms(2) by simp
    moreover have "set (names_of types0) \<inter> set (map name funs) = {}"
      unfolding i(4) using assms(2) by auto
    moreover have "distinct (map name funs)" using assms(2) by simp
    ultimately show ?thesis using f(5) by simp
  qed
  have look: "map_of ft nm = Some (sig_index keys k) \<and> sig_index keys k < length keys
              \<and> keys ! sig_index keys k = k" if "(k, nm) \<in> pairs_of types" for k nm
    using emitTypes_lookup [OF em dn _ that] dk unfolding keys_def by simp
  have er: "index = length keys" "result = concat (map type_entry keys)"
    using emitTypes_result [OF em] by (simp_all add: keys_def)
  have ft: "m_functionTypes bt' = ft" using bt' by simp
  have limp: "map_of ft (internalName (imps ! i)) = Some (sig_index keys (its ! i))
          \<and> sig_index keys (its ! i) < length keys
          \<and> keys ! sig_index keys (its ! i) = its ! i" if "i < length imps" for i
  proof -
    have "(its ! i, map internalName imps ! i) \<in> set (zip its (map internalName imps))"
      using that li by (intro zip_nth_mem) simp_all
    then have "(its ! i, internalName (imps ! i)) \<in> pairs_of types"
      using that unfolding f(3) i(3) by simp
    then show ?thesis by (rule look)
  qed
  have lfun: "map_of ft (name (funs ! i)) = Some (sig_index keys (fts ! i))
          \<and> sig_index keys (fts ! i) < length keys
          \<and> keys ! sig_index keys (fts ! i) = fts ! i" if "i < length funs" for i
  proof -
    have "(fts ! i, map name funs ! i) \<in> set (zip fts (map name funs))"
      using that lf by (intro zip_nth_mem) simp_all
    then have "(fts ! i, name (funs ! i)) \<in> pairs_of types"
      using that unfolding f(3) by simp
    then show ?thesis by (rule look)
  qed
  have pi: "\<forall>imp\<in>set imps. \<exists>i. map_of ft (internalName imp) = Some i"
    using limp by (auto simp: in_set_conv_nth)
  have pf: "\<forall>f\<in>set funs. \<exists>i. map_of ft (name f) = Some i"
    using lfun by (auto simp: in_set_conv_nth)
  have mi: "map (\<lambda>imp. encode (module imp) @ encode (externalName imp) @ [0x00]
                 @ lebEncode (of_nat (the (map_of ft (internalName imp))))) imps
          = map2 (\<lambda>imp t. encode (module imp) @ encode (externalName imp) @ [0x00]
                                @ lebEncode (of_nat (sig_index keys t))) imps its"
    using li limp by (intro nth_equalityI) simp_all
  have mf: "map (\<lambda>f. lebEncode (of_nat (the (map_of ft (name f))))) funs
          = map (\<lambda>t. lebEncode (of_nat (sig_index keys t))) fts"
    using lf lfun by (intro nth_equalityI) simp_all
  have isec: "importSection bt' imps =
         (section_frame 0x02 (lebEncode (of_nat (length imps))
            @ concat (map2 (\<lambda>imp t. encode (module imp) @ encode (externalName imp) @ [0x00]
                                @ lebEncode (of_nat (sig_index keys t))) imps its)), bt')"
    unfolding importSection_def ft importEntries_present [OF pi] mi section_frame_prefixSize
    using bt' by simp
  have fsec: "functionSection bt' funs =
         Inr (section_frame 0x03 (lebEncode (of_nat (length funs))
            @ concat (map (\<lambda>t. lebEncode (of_nat (sig_index keys t))) fts)))"
    unfolding functionSection_def ft functionEntries_present [OF pf] mf section_frame_prefixSize
    by simp
  have ord: "\<forall>p q r. \<not> Type_less p p \<and> (Type_less p q \<and> Type_less q r \<longrightarrow> Type_less p r)
          \<and> (Type_less p q \<or> p = q \<or> Type_less q p)"
    using Type_less_irrefl Type_less_trans Type_less_total by blast
  have alt: "\<forall>p q. Type_less p q =
          (bytes_less (fst p) (fst q) \<or> fst p = fst q \<and> bytes_less (snd p) (snd q))"
    using Type_less_alt by blast
  have sk: "set keys = set its \<union> set fts" using f(2) i(2) by (simp add: keys_def)
  have tsec: "ts = section_frame 0x01 (lebEncode (of_nat (length keys)) @ concat (map type_entry keys))"
    using ts er by simp
  have A: "\<forall>i<length imps.
          map_at (m_functionTypes bt') (internalName (imps ! i)) = Inr (sig_index keys (its ! i))
          \<and> sig_index keys (its ! i) < length keys
          \<and> keys ! sig_index keys (its ! i) = its ! i"
    using limp unfolding ft map_at_eq_Inr by blast
  have B: "\<forall>i<length funs.
          map_at (m_functionTypes bt') (name (funs ! i)) = Inr (sig_index keys (fts ! i))
          \<and> sig_index keys (fts ! i) < length keys
          \<and> keys ! sig_index keys (fts ! i) = fts ! i"
    using lfun unfolding ft map_at_eq_Inr by blast
  show ?thesis
    apply (rule exI [of _ keys], rule exI [of _ its], rule exI [of _ fts])
    apply (intro conjI)
    apply (rule i(1))
    apply (rule f(1))
    apply (rule tsec)
    apply (rule sk)
    apply (rule dk)
    apply (rule sorted)
    apply (rule A)
    apply (rule B)
    apply (rule isec)
    apply (rule fsec)
    apply (rule ord)
    apply (rule alt)
    done
qed

theorem type_section_signatures_witness:
  "typeSection example_state [example_import] [example_main]
     = Inr ([1, 12, 2, 96, 1, 126, 1, 126, 96, 2, 127, 126, 1, 126], example_state)
   \<and> distinct (map internalName [example_import] @ map name [example_main])
   \<and> (\<exists>its fts.
      map typeOf_import [example_import] = map Inr its
    \<and> map typeOf_def [example_main] = map Inr fts
    \<and> its = [([0x7F, 0x7E], [0x7E])] \<and> fts = [([0x7E], [0x7E])])
   \<and> (\<exists>keys its fts.
      map typeOf_import [example_import] = map Inr its
    \<and> map typeOf_def [example_main] = map Inr fts
    \<and> [1, 12, 2, 96, 1, 126, 1, 126, 96, 2, 127, 126, 1, 126]
         = section_frame 0x01 (lebEncode (of_nat (length keys)) @ concat (map type_entry keys))
    \<and> set keys = set its \<union> set fts
    \<and> distinct keys
    \<and> sorted_wrt Type_less keys
    \<and> (\<forall>i<length [example_import].
          map_at (m_functionTypes example_state) (internalName ([example_import] ! i))
            = Inr (sig_index keys (its ! i))
          \<and> sig_index keys (its ! i) < length keys
          \<and> keys ! sig_index keys (its ! i) = its ! i)
    \<and> (\<forall>i<length [example_main].
          map_at (m_functionTypes example_state) (name ([example_main] ! i))
            = Inr (sig_index keys (fts ! i))
          \<and> sig_index keys (fts ! i) < length keys
          \<and> keys ! sig_index keys (fts ! i) = fts ! i)
    \<and> importSection example_state [example_import] =
         (section_frame 0x02 (lebEncode (of_nat (length [example_import]))
            @ concat (map2 (\<lambda>imp t. encode (module imp) @ encode (externalName imp) @ [0x00]
                                @ lebEncode (of_nat (sig_index keys t))) [example_import] its)),
          example_state)
    \<and> functionSection example_state [example_main] =
         Inr (section_frame 0x03 (lebEncode (of_nat (length [example_main]))
            @ concat (map (\<lambda>t. lebEncode (of_nat (sig_index keys t))) fts)))
    \<and> (\<forall>p q r. \<not> Type_less p p \<and> (Type_less p q \<and> Type_less q r \<longrightarrow> Type_less p r)
          \<and> (Type_less p q \<or> p = q \<or> Type_less q p))
    \<and> (\<forall>p q. Type_less p q =
          (bytes_less (fst p) (fst q) \<or> fst p = fst q \<and> bytes_less (snd p) (snd q))))"
proof -
  have h: "typeSection example_state [example_import] [example_main]
     = Inr ([1, 12, 2, 96, 1, 126, 1, 126, 96, 2, 127, 126, 1, 126], example_state)"
    by code_simp
  have d: "distinct (map internalName [example_import] @ map name [example_main])"
    by (simp add: example_import_def example_main_def)
  have t: "typeOf_import example_import = Inr ([0x7F, 0x7E], [0x7E])"
    "typeOf_def example_main = Inr ([0x7E], [0x7E])"
    by code_simp+
  from type_section_signatures [OF h d] h d t show ?thesis by simp
qed

section \<open>Function indices\<close>

lemma resolver_functions:
  "m_functions (resolver gs imps funs) =
     fst (assignIndices [] (map internalName imps @ map name funs) 0)"
  by (simp add: resolver_def assignIndices_append split: prod.splits)

lemma many_imports_names:
  "map internalName many_imports = map (\<lambda>i. [char_of i]) [0..<256]"
  by (simp add: many_imports_def o_def)

lemma many_functions_distinct:
  "distinct (map internalName many_imports @ map name [self_call_main])"
proof -
  have "inj_on (\<lambda>i::nat. [char_of i :: char]) {0..<256}"
    using inj_on_char_of_nat by (auto simp: inj_on_def)
  then have "distinct (map (\<lambda>i::nat. [char_of i :: char]) [0..<256])"
    by (simp add: distinct_map)
  moreover have "''main'' \<notin> set (map (\<lambda>i::nat. [char_of i :: char]) [0..<256])"
    by auto
  ultimately show ?thesis
    by (simp add: many_imports_names self_call_main_def)
qed

lemma collectImports_succeeds:
  "\<forall>imp\<in>set imps. \<exists>t. typeOf_import imp = Inr t \<Longrightarrow> \<exists>r. collectImports m imps = Inr r"
  by (induction imps arbitrary: m) auto

lemma encodeTypes_i64: "encodeTypes (replicate n ''i64'') = Inr (replicate n 0x7E)"
  by (induction n) (simp_all add: encodeType_def)

lemma typeOf_def_Inr:
  "typeOf_def f =
     Inr (replicate (length (parameterNames f)) 0x7E, replicate (if returns f then 1 else 0) 0x7E)"
  by (simp add: typeOf_def_def encodeTypes_i64)

lemma collectFunctions_succeeds: "\<exists>r. collectFunctions m funs = Inr r"
  by (induction funs arbitrary: m) (simp_all add: typeOf_def_Inr)

lemma emitTypes_present:
  "emitTypes ft types index result = (ft', result', index') \<Longrightarrow> nm \<in> set (names_of types) \<Longrightarrow>
   \<exists>i. map_of ft' nm = Some i"
proof (induction ft types index result rule: emitTypes.induct)
  case (1 ft index result)
  then show ?case by simp
next
  case (2 ft type funNames types index result)
  show ?case
  proof (cases "nm \<in> set (names_of types)")
    case True
    with 2 show ?thesis by simp
  next
    case False
    with 2(3) have nm: "nm \<in> set funNames" by simp
    from 2(2) False have "map_of ft' nm = map_of (assignNames ft funNames index) nm"
      by (intro emitTypes_other) simp_all
    with nm show ?thesis by (simp add: assignNames_map_of)
  qed
qed

lemma sections_succeeds:
  assumes "\<forall>imp\<in>set imps. \<exists>t. typeOf_import imp = Inr t"
    and "map_at (m_functions (resolver gs imps funs)) ''main'' = Inr i"
  shows "\<exists>ret ft. sections gs imps funs [] =
           Inr (ret, (resolver gs imps funs)\<lparr>m_functionTypes := ft\<rparr>)"
proof -
  let ?bt = "resolver gs imps funs"
  from collectImports_succeeds [OF assms(1)] obtain types0 where
    ci: "collectImports [] imps = Inr types0" by blast
  from collectFunctions_succeeds obtain types where
    cf: "collectFunctions types0 funs = Inr types" by blast
  obtain ft result index where
    em: "emitTypes (m_functionTypes ?bt) types 0 [] = (ft, result, index)"
    by (cases "emitTypes (m_functionTypes ?bt) types 0 []") auto
  define ts where "ts = [0x01] @ prefixSize (lebEncode (of_nat index) @ result)"
  have t: "typeSection ?bt imps funs = Inr (ts, ?bt\<lparr>m_functionTypes := ft\<rparr>)"
    by (simp add: typeSection_def ci cf em ts_def)
  from collectImports_Inr [OF ci] have n0: "set (names_of types0) = set (map internalName imps)"
    by auto
  from collectFunctions_Inr [OF cf] have
    n: "set (names_of types) = set (map internalName imps) \<union> set (map name funs)"
    unfolding n0 by auto
  have pi: "\<forall>imp\<in>set imps. \<exists>i. map_of ft (internalName imp) = Some i"
    using emitTypes_present [OF em] n by auto
  have pf: "\<forall>f\<in>set funs. \<exists>i. map_of ft (name f) = Some i"
    using emitTypes_present [OF em] n by auto
  obtain isec where i: "importSection (?bt\<lparr>m_functionTypes := ft\<rparr>) imps
      = (isec, ?bt\<lparr>m_functionTypes := ft\<rparr>)"
    by (simp add: importSection_def importEntries_present [OF pi])
  obtain fs where f: "functionSection (?bt\<lparr>m_functionTypes := ft\<rparr>) funs = Inr fs"
    by (simp add: functionSection_def functionEntries_present [OF pf])
  obtain es where e: "exportSection (?bt\<lparr>m_functionTypes := ft\<rparr>) = Inr es"
    using assms(2) by (simp add: exportSection_def)
  have "sections gs imps funs [] =
      Inr ([0, 0x61, 0x73, 0x6d] @ [1, 0, 0, 0] @ ts @ isec @ fs @ memorySection
             @ globalSection (?bt\<lparr>m_functionTypes := ft\<rparr>) @ es,
           ?bt\<lparr>m_functionTypes := ft\<rparr>)"
    by (simp add: sections_def t i f e del: append.simps)
  then show ?thesis by blast
qed

lemma self_call_code:
  assumes "map_at (m_functions bt) ''main'' = Inr 256"
  shows "\<exists>bt'. codeSection bt [self_call_main]
           = Inr ([0x0A, 0x08, 0x01, 0x06, 0x01, 0x00, 0x7E, 0x10, 0x00, 0x0B], bt')"
proof -
  have l: "lebEncode 0 = [0x00]" "lebEncode 1 = [0x01]" "lebEncode 6 = [0x06]"
    "lebEncode 8 = [0x08]"
    by code_simp+
  show ?thesis
    using assms
    by (simp add: codeSection_def functionDefinition_def self_call_main_def prefixSize_def l)
qed


text \<open>
  Claim C4. The resolver numbers the imports from 0 in declaration order and continues
  with the definitions (\<open>resolver_functions\<close>, \<open>assignIndices_nth\<close>), and the export of
  \<open>main\<close> writes the LEB128 of its index. The \<^verbatim>\<open>call\<close> instruction, however, is followed by
  \<^verbatim>\<open>result.push_back(m_functions.at(...))\<close>, one \<^verbatim>\<open>uint8_t\<close>: the index is cut to its low
  eight bits. In the module with 256 imports and the function \<open>main\<close>, the resolver gives
  \<open>main\<close> the index 256; the export section writes \<open>80 02\<close> for it, and the call of
  \<open>main\<close> is lowered to \<open>10 00\<close>, the call of the function with index 0: \<open>run\<close> succeeds
  on the module and its output ends with the Code section \<open>0A 08 01 06 01 00 7E 10 00 0B\<close>.
\<close>

theorem call_index_one_byte:
  "map_at (m_functions (resolver [] many_imports [self_call_main])) ''main'' = Inr 256
   \<and> apply_visitor (resolver [] many_imports [self_call_main]) (FunctionCall ''main'' [])
       = Inr [0x10, 0x00]
   \<and> exportSection (resolver [] many_imports [self_call_main])
       = Inr (section_frame 0x07
           ([0x02] @ encode ''memory'' @ [0x02, 0x00] @ encode ''main'' @ [0x00] @ [0x80, 0x02]))
   \<and> (\<exists>ret. run many_functions_module
         = Inr (ret @ [0x0A, 0x08, 0x01, 0x06, 0x01, 0x00, 0x7E, 0x10, 0x00, 0x0B]))"
proof -
  let ?bt = "resolver [] many_imports [self_call_main]"
  let ?names = "map internalName many_imports @ map name [self_call_main]"
  have len: "length (map internalName many_imports) = 256"
    by (simp add: many_imports_def)
  have "?names ! 256 = ''main''"
    using len by (simp add: nth_append self_call_main_def)
  moreover have "256 < length ?names" using len by simp
  ultimately have "map_of (fst (assignIndices [] ?names 0)) ''main'' = Some (0 + 256)"
    using assignIndices_nth [OF many_functions_distinct, of 256 "[]" 0] by simp
  then have m: "map_at (m_functions ?bt) ''main'' = Inr 256"
    by (simp add: resolver_functions map_at_eq_Inr)
  have l: "lebEncode 256 = [0x80, 0x02]" "lebEncode 2 = [0x02]" "lebEncode 0 = [0x00]"
    by code_simp+
  have e: "exportSection ?bt
       = Inr (section_frame 0x07
           ([0x02] @ encode ''memory'' @ [0x02, 0x00] @ encode ''main'' @ [0x00] @ [0x80, 0x02]))"
    using m by (simp add: exportSection_def section_frame_def prefixSize_def l)
  have t: "\<forall>imp\<in>set many_imports. \<exists>t. typeOf_import imp = Inr t"
    by (auto simp: many_imports_def typeOf_import_def)
  from sections_succeeds [OF t m] obtain ret ft where
    s: "sections [] many_imports [self_call_main] [] = Inr (ret, ?bt\<lparr>m_functionTypes := ft\<rparr>)"
    by blast
  have "map_at (m_functions (?bt\<lparr>m_functionTypes := ft\<rparr>)) ''main'' = Inr 256"
    using m by simp
  from self_call_code [OF this] obtain bt' where
    c: "codeSection (?bt\<lparr>m_functionTypes := ft\<rparr>) [self_call_main]
           = Inr ([0x0A, 0x08, 0x01, 0x06, 0x01, 0x00, 0x7E, 0x10, 0x00, 0x0B], bt')"
    by blast
  have r: "run many_functions_module
         = Inr (ret @ [0x0A, 0x08, 0x01, 0x06, 0x01, 0x00, 0x7E, 0x10, 0x00, 0x0B])"
    by (simp add: many_functions_module_def s c)
  show ?thesis
    using m e r by simp
qed

end
